theory Spec2Isabelle
  imports Complex_Main "HOL-Library.Sublist" "HOL-Library.List_Lexorder" "HOL-Library.Log_Nat"
begin

section \<open>Values of the analysis engine (analysis.py)\<close>

text \<open>
  A Python \<open>str\<close> is a sequence of Unicode code points, so a string is a list of
  natural numbers; ASCII literals of the source are written through \<open>ascii\<close>, the
  Chinese literals as their code points.
\<close>

type_synonym str = "nat list"

definition ascii :: "string \<Rightarrow> str" where
  "ascii s = map of_char s"

text \<open>
  A cell of a pandas table. \<open>Missing\<close> stands for \<open>None\<close>, \<open>NaN\<close> and
  \<open>NaT\<close> (what \<open>dropna\<close> and \<open>isna\<close> treat alike); \<open>Num\<close> is an int
  or a float, read as a real number; \<open>Date\<close> is a calendar date (the \<open>date\<close> column
  of models.py is \<open>Column(Date)\<close>), held as its day number counted from 1970-01-01.
\<close>

datatype cell = Missing | Num real | Str str | Date int

datatype exn = KeyError | IndexError | ValueError | TypeError | AttributeError

subsection \<open>Python's \<open>round\<close>\<close>

text \<open>\<open>round(x)\<close> on a float: the nearest integer, a tie going to the even one.\<close>

definition py_round :: "real \<Rightarrow> int" where
  "py_round x =
     (let f = \<lfloor>x\<rfloor>; d = x - of_int f
      in if d < 1 / 2 then f else if 1 / 2 < d then f + 1
         else if even f then f else f + 1)"

text \<open>
  The decimal rounding behind \<open>round(x, n)\<close>: the exact value of \<open>x\<close> rounded at the
  n-th decimal, a tie going to the even digit.
\<close>

definition py_round_nd :: "real \<Rightarrow> nat \<Rightarrow> real" where
  "py_round_nd x n = of_int (py_round (x * 10 ^ n)) / 10 ^ n"

subsection \<open>Python's \<open>float\<close>\<close>

text \<open>
  A Python \<open>float\<close> is an IEEE-754 binary64 number: a multiple of \<open>2\<^sup>-\<^sup>1\<^sup>0\<^sup>7\<^sup>4\<close> with
  at most 53 significant bits. A finite float is modelled by the real number it denotes,
  and every arithmetic operation returns the exact result rounded to the nearest float,
  a tie going to the even significand. \<open>binade x\<close> is the number of low bits (counted
  from \<open>2\<^sup>-\<^sup>1\<^sup>0\<^sup>7\<^sup>4\<close>) that a float of the magnitude of \<open>x\<close> cannot hold, \<open>spacing x\<close>
  the distance between neighbouring floats there, and \<open>fl x\<close> the float nearest to
  \<open>x\<close>. The exponent is not bounded above: overflow to infinity is not modelled (in
  the confidence score below an infinite width and a large finite one are clamped alike).
\<close>

definition binade :: "real \<Rightarrow> nat" where
  "binade x = nat (bitlen \<lfloor>\<bar>x\<bar> * 2 ^ 1074\<rfloor> - 53)"

definition spacing :: "real \<Rightarrow> real" where
  "spacing x = 2 ^ binade x / 2 ^ 1074"

definition fl :: "real \<Rightarrow> real" where
  "fl x = of_int (py_round (x / spacing x)) * spacing x"

text \<open>\<open>x + y\<close>, \<open>x - y\<close> and \<open>x / y\<close> on floats.\<close>

definition float_add :: "real \<Rightarrow> real \<Rightarrow> real" where
  "float_add x y = fl (x + y)"

definition float_sub :: "real \<Rightarrow> real \<Rightarrow> real" where
  "float_sub x y = fl (x - y)"

definition float_div :: "real \<Rightarrow> real \<Rightarrow> real" where
  "float_div x y = fl (x / y)"

text \<open>
  \<open>round(x, n)\<close> on a float \<open>x\<close>: CPython rounds the exact decimal expansion of
  \<open>x\<close> at the n-th decimal (ties to even) and returns the float nearest to that decimal.
\<close>

definition round_float :: "real \<Rightarrow> nat \<Rightarrow> real" where
  "round_float x n = fl (py_round_nd x n)"

section \<open>AQI level classifier: \<open>_aqi_level_details\<close>\<close>

record level_details =
  level :: str
  color :: str
  tip :: str

definition level_unknown :: level_details where
  "level_unknown = \<lparr>level = [26410, 30693], color = ascii ''#9e9e9e'',
     tip = [25968, 25454, 32570, 22833, 65292, 26080, 27861, 35780, 20272, 12290]\<rparr>"

definition level_good :: level_details where
  "level_good = \<lparr>level = [20248], color = ascii ''#4caf50'',
     tip = [31354, 27668, 36136, 37327, 20196, 20154, 28385, 24847, 65292, 22522, 26412,
            26080, 31354, 27668, 27745, 26579, 65292, 21508, 31867, 20154, 32676, 21487,
            27491, 24120, 27963, 21160, 12290]\<rparr>"

definition level_moderate :: level_details where
  "level_moderate = \<lparr>level = [33391], color = ascii ''#ffc107'',
     tip = [31354, 27668, 36136, 37327, 21487, 25509, 21463, 65292, 20294, 26576, 20123,
            27745, 26579, 29289, 21487, 33021, 23545, 26497, 23569, 25968, 24322, 24120,
            25935, 24863, 20154, 32676, 20581, 24247, 26377, 36739, 24369, 24433, 21709,
            12290]\<rparr>"

definition level_sensitive :: level_details where
  "level_sensitive = \<lparr>level = [36731, 24230, 27745, 26579], color = ascii ''#ff9800'',
     tip = [26131, 24863, 20154, 32676, 30151, 29366, 26377, 36731, 24230, 21152, 21095,
            65292, 20581, 24247, 20154, 32676, 20986, 29616, 21050, 28608, 30151, 29366,
            12290, 24314, 35758, 20799, 31461, 12289, 32769, 24180, 20154, 21450, 24515,
            33039, 30149, 12289, 21628, 21560, 31995, 32479, 30142, 30149, 24739, 32773,
            20943, 23569, 38271, 26102, 38388, 12289, 39640, 24378, 24230, 30340, 25143,
            22806, 38203, 28860, 12290]\<rparr>"

definition level_unhealthy :: level_details where
  "level_unhealthy = \<lparr>level = [20013, 24230, 27745, 26579], color = ascii ''#f44336'',
     tip = [36827, 19968, 27493, 21152, 21095, 26131, 24863, 20154, 32676, 30151, 29366,
            65292, 21487, 33021, 23545, 20581, 24247, 20154, 32676, 24515, 33039, 12289,
            21628, 21560, 31995, 32479, 26377, 24433, 21709, 12290, 24314, 35758, 20799,
            31461, 12289, 32769, 24180, 20154, 21450, 24515, 33039, 30149, 12289, 21628,
            21560, 31995, 32479, 30142, 30149, 24739, 32773, 36991, 20813, 38271, 26102,
            38388, 12289, 39640, 24378, 24230, 30340, 25143, 22806, 38203, 28860, 65292,
            19968, 33324, 20154, 32676, 36866, 37327, 20943, 23569, 25143, 22806, 36816,
            21160, 12290]\<rparr>"

definition level_very_unhealthy :: level_details where
  "level_very_unhealthy = \<lparr>level = [37325, 24230, 27745, 26579], color = ascii ''#9c27b0'',
     tip = [24515, 33039, 30149, 21644, 32954, 30149, 24739, 32773, 30151, 29366, 26174,
            33879, 21152, 21095, 65292, 36816, 21160, 32784, 21463, 21147, 38477, 20302,
            65292, 20581, 24247, 20154, 32676, 26222, 36941, 20986, 29616, 30151, 29366,
            12290, 24314, 35758, 20799, 31461, 12289, 32769, 24180, 20154, 21644, 24515,
            33039, 30149, 12289, 32954, 30149, 24739, 32773, 24212, 20572, 30041, 22312,
            23460, 20869, 65292, 20572, 27490, 25143, 22806, 36816, 21160, 65292, 19968,
            33324, 20154, 32676, 36991, 20813, 25143, 22806, 36816, 21160, 12290]\<rparr>"

definition level_hazardous :: level_details where
  "level_hazardous = \<lparr>level = [20005, 37325, 27745, 26579], color = ascii ''#795548'',
     tip = [20581, 24247, 20154, 32676, 36816, 21160, 32784, 21463, 21147, 38477, 20302,
            65292, 26377, 26126, 26174, 24378, 28872, 30151, 29366, 65292, 25552, 21069,
            20986, 29616, 26576, 20123, 30142, 30149, 12290, 24314, 35758, 20799, 31461,
            12289, 32769, 24180, 20154, 21644, 30149, 20154, 24212, 20572, 30041, 22312,
            23460, 20869, 65292, 36991, 20813, 20307, 21147, 28040, 32791, 65292, 19968,
            33324, 20154, 32676, 24212, 36991, 20813, 25143, 22806, 27963, 21160, 12290]\<rparr>"

text \<open>
  The argument is \<open>None\<close> for Python's \<open>None\<close> and for \<open>NaN\<close>, the two inputs the
  first test of the source catches. (Isabelle names cannot start with an underscore.)
\<close>

definition aqi_level_details :: "real option \<Rightarrow> level_details" where
  "aqi_level_details a =
     (case a of
        None \<Rightarrow> level_unknown
      | Some x \<Rightarrow>
          (let aqi = py_round x
           in if aqi \<le> 50 then level_good
              else if aqi \<le> 100 then level_moderate
              else if aqi \<le> 150 then level_sensitive
              else if aqi \<le> 200 then level_unhealthy
              else if aqi \<le> 300 then level_very_unhealthy
              else level_hazardous))"

definition aqi_level :: "real option \<Rightarrow> str" where
  "aqi_level aqi_value = level (aqi_level_details aqi_value)"

section \<open>Forecast points and the confidence score\<close>

text \<open>
  Lines 442-443 of \<open>forecast_aqi_7_days\<close>; \<open>p10\<close> and \<open>p90\<close> are floats, and so is
  every intermediate result.
\<close>

definition confidence :: "real \<Rightarrow> real \<Rightarrow> real" where
  "confidence p10 p90 =
     (let width = max 0 (float_sub p90 p10)
      in max 0 (min 1 (float_sub 1 (float_div width 120))))"

text \<open>
  The record appended to \<open>forecast_list\<close> (lines 445-454). \<open>fp_date\<close> is the target
  date, which the source renders with \<open>str\<close>.
\<close>

record forecast_point =
  fp_date :: int
  aqi_p10 :: real
  aqi_p50 :: real
  aqi_p90 :: real
  fp_confidence :: real
  fp_details :: level_details

definition make_point :: "int \<Rightarrow> real \<Rightarrow> real \<Rightarrow> real \<Rightarrow> forecast_point" where
  "make_point target_date p10 p50 p90 =
     \<lparr>fp_date = target_date,
      aqi_p10 = round_float p10 2,
      aqi_p50 = round_float p50 2,
      aqi_p90 = round_float p90 2,
      fp_confidence = round_float (confidence p10 p90) 3,
      fp_details = aqi_level_details (Some p50)\<rparr>"

section \<open>Tables\<close>

text \<open>
  A pandas \<open>DataFrame\<close>: the list of its column names and its rows in order, each
  row with its index label. A row maps a column name to the cell it holds; only the
  names in \<open>columns\<close> are columns of the table.
\<close>

type_synonym row = "str \<Rightarrow> cell"

record table =
  columns :: "str list"
  rows :: "(nat \<times> row) list"

definition c_date :: str where "c_date = ascii ''date''"
definition c_max_temp :: str where "c_max_temp = ascii ''max_temp''"
definition c_min_temp :: str where "c_min_temp = ascii ''min_temp''"
definition c_weather :: str where "c_weather = ascii ''weather''"
definition c_wind :: str where "c_wind = ascii ''wind''"
definition c_aqi :: str where "c_aqi = ascii ''aqi''"
definition c_wind_speed :: str where "c_wind_speed = ascii ''wind_speed''"
definition c_wind_direction :: str where "c_wind_direction = ascii ''wind_direction''"
definition c_weather_simple :: str where "c_weather_simple = ascii ''weather_simple''"
definition c_dow :: str where "c_dow = ascii ''dow''"
definition c_month :: str where "c_month = ascii ''month''"
definition c_aqi_next :: str where "c_aqi_next = ascii ''aqi_next''"

text \<open>\<open>c in df.columns\<close>, \<open>df[c]\<close> (the values, in row order) and \<open>df[c] = values\<close>.\<close>

definition has_col :: "table \<Rightarrow> str \<Rightarrow> bool" where
  "has_col df c = (c \<in> set (columns df))"

definition getcol :: "table \<Rightarrow> str \<Rightarrow> cell list" where
  "getcol df c = map (\<lambda>ir. snd ir c) (rows df)"

text \<open>
  Assigning a column keeps the place of an existing column and appends a new one. The
  values assigned in the source are always computed from a column of the same table, so
  they line up with the rows by position.
\<close>

definition setcol :: "table \<Rightarrow> str \<Rightarrow> cell list \<Rightarrow> table" where
  "setcol df c vs =
     \<lparr>columns = (if c \<in> set (columns df) then columns df else columns df @ [c]),
      rows = map (\<lambda>(ir, v). (fst ir, (snd ir)(c := v))) (zip (rows df) vs)\<rparr>"

text \<open>\<open>df.dropna(subset=cs)\<close>; \<open>df.dropna()\<close> is \<open>dropna (columns df) df\<close>.\<close>

definition present :: "str list \<Rightarrow> nat \<times> row \<Rightarrow> bool" where
  "present cs ir = list_all (\<lambda>c. snd ir c \<noteq> Missing) cs"

definition dropna :: "str list \<Rightarrow> table \<Rightarrow> table" where
  "dropna cs df = \<lparr>columns = columns df, rows = filter (present cs) (rows df)\<rparr>"

section \<open>What the Python runtime and pandas supply\<close>

text \<open>
  The tables and parsers of the runtime that the engine calls but does not define are
  parameters of the model:
  \<^item> \<open>decimal\<close>: the digit value of a code point that the regular expression class
    \<open>\d\<close> matches (and \<open>int\<close> reads), \<open>None\<close> for every other code point;
  \<^item> \<open>whitespace\<close>: the code points \<open>str.strip\<close> removes;
  \<^item> \<open>str_to_num\<close>, \<open>date_to_num\<close>: what \<open>pd.to_numeric(errors="coerce")\<close> makes of a
    string and of a date (\<open>None\<close>: not a number, coerced to \<open>NaN\<close>);
  \<^item> \<open>parse_datetime\<close>: what \<open>pd.to_datetime(errors="coerce")\<close> makes of a cell that is
    neither missing nor a date already; pandas may infer the format from the whole column,
    so the column is an argument (\<open>None\<close>: coerced to \<open>NaT\<close>).
\<close>

record runtime =
  decimal :: "nat \<Rightarrow> nat option"
  whitespace :: "nat \<Rightarrow> bool"
  str_to_num :: "str \<Rightarrow> real option"
  date_to_num :: "int \<Rightarrow> real option"
  parse_datetime :: "cell list \<Rightarrow> cell \<Rightarrow> int option"

definition is_digit :: "runtime \<Rightarrow> nat \<Rightarrow> bool" where
  "is_digit rt c = (decimal rt c \<noteq> None)"

definition digit_value :: "runtime \<Rightarrow> nat \<Rightarrow> nat" where
  "digit_value rt c = (case decimal rt c of Some v \<Rightarrow> v | None \<Rightarrow> 0)"

text \<open>\<open>int(s)\<close> on a run of digits, and \<open>s.strip()\<close>.\<close>

definition int_of_digits :: "runtime \<Rightarrow> str \<Rightarrow> nat" where
  "int_of_digits rt ds = foldl (\<lambda>acc c. 10 * acc + digit_value rt c) 0 ds"

definition strip :: "runtime \<Rightarrow> str \<Rightarrow> str" where
  "strip rt s = rev (dropWhile (whitespace rt) (rev (dropWhile (whitespace rt) s)))"

text \<open>
  \<open>pd.to_numeric(errors="coerce")\<close> and \<open>pd.to_datetime(errors="coerce")\<close> on a cell.
  A number is kept as the number it is, and a date as the date it is: the rounding of an
  integer beyond \<open>2\<^sup>5\<^sup>3\<close> when pandas stores an object column as \<open>float64\<close>, and the
  coercion to \<open>NaT\<close> of a date outside the range of \<open>Timestamp\<close>, are not modelled.
\<close>

definition to_numeric :: "runtime \<Rightarrow> cell \<Rightarrow> cell" where
  "to_numeric rt c =
     (case c of
        Missing \<Rightarrow> Missing
      | Num x \<Rightarrow> Num x
      | Str s \<Rightarrow> (case str_to_num rt s of Some x \<Rightarrow> Num x | None \<Rightarrow> Missing)
      | Date d \<Rightarrow> (case date_to_num rt d of Some x \<Rightarrow> Num x | None \<Rightarrow> Missing))"

definition to_datetime_cell :: "runtime \<Rightarrow> cell list \<Rightarrow> cell \<Rightarrow> cell" where
  "to_datetime_cell rt col c =
     (case c of
        Missing \<Rightarrow> Missing
      | Date d \<Rightarrow> Date d
      | _ \<Rightarrow> (case parse_datetime rt col c of Some d \<Rightarrow> Date d | None \<Rightarrow> Missing))"

definition to_datetime :: "runtime \<Rightarrow> cell list \<Rightarrow> cell list" where
  "to_datetime rt col = map (to_datetime_cell rt col) col"

section \<open>Wind-text parser: \<open>_extract_wind_speed_and_direction\<close>\<close>

text \<open>
  \<open>re.sub(r"\d+", "", s)\<close> deletes every digit; \<open>replace\<close> deletes every U+7EA7;
  \<open>re.search(r"(\d+)", s)\<close> finds the first maximal run of digits.
\<close>

definition extract_wind_speed_and_direction :: "runtime \<Rightarrow> cell \<Rightarrow> cell \<times> cell" where
  "extract_wind_speed_and_direction rt wind_str =
     (case wind_str of
        Str s \<Rightarrow>
          (let direction = filter (\<lambda>c. \<not> is_digit rt c) s;
               direction = strip rt (filter (\<lambda>c. c \<noteq> 32423) direction);
               speed_match = takeWhile (is_digit rt) (dropWhile (\<lambda>c. \<not> is_digit rt c) s);
               speed = (if speed_match = [] then Missing
                        else Num (of_nat (int_of_digits rt speed_match)))
           in (speed, Str direction))
      | _ \<Rightarrow> (Missing, Missing))"

section \<open>Preprocessor: \<open>preprocess_data\<close>\<close>

text \<open>The lambda of line 110: the text before the first \<open>~\<close>, stripped.\<close>

definition weather_simple :: "runtime \<Rightarrow> cell \<Rightarrow> cell" where
  "weather_simple rt x =
     (case x of
        Str s \<Rightarrow> Str (strip rt (takeWhile (\<lambda>c. c \<noteq> 126) s))
      | _ \<Rightarrow> Str [26410, 30693])"

definition numeric4 :: "str list" where
  "numeric4 = [c_max_temp, c_min_temp, c_wind_speed, c_aqi]"

text \<open>
  The function on tables as values. Reading a column the table does not have raises
  \<open>KeyError\<close>.
\<close>

definition preprocess_data :: "runtime \<Rightarrow> table \<Rightarrow> exn + table" where
  "preprocess_data rt df =
     (let df_copy = df
      in if \<not> has_col df_copy c_wind then Inl KeyError
      else
        let wind_info = map (extract_wind_speed_and_direction rt) (getcol df_copy c_wind);
            df_copy = setcol df_copy c_wind_speed (map fst wind_info);
            df_copy = setcol df_copy c_wind_direction (map snd wind_info)
        in if \<not> has_col df_copy c_weather then Inl KeyError
        else
          let df_copy = setcol df_copy c_weather_simple
                          (map (weather_simple rt) (getcol df_copy c_weather))
          in if \<not> list_all (has_col df_copy) numeric4 then Inl KeyError
          else
            let df_copy = dropna numeric4 df_copy;
                df_copy = setcol df_copy c_wind_speed
                            (map (to_numeric rt) (getcol df_copy c_wind_speed));
                df_copy = setcol df_copy c_max_temp
                            (map (to_numeric rt) (getcol df_copy c_max_temp));
                df_copy = setcol df_copy c_min_temp
                            (map (to_numeric rt) (getcol df_copy c_min_temp));
                df_copy = setcol df_copy c_aqi
                            (map (to_numeric rt) (getcol df_copy c_aqi));
                df_copy = dropna numeric4 df_copy;
                df_copy = (if has_col df_copy c_date
                           then setcol df_copy c_date (to_datetime rt (getcol df_copy c_date))
                           else df_copy)
            in Inr df_copy)"

text \<open>
  The same function on objects: a store holds the tables that exist, an address names one,
  \<open>df.copy()\<close> and \<open>dropna\<close> make a new table, a column assignment changes the table
  it is applied to. The argument is the address of the caller's table, the result the
  address of the returned table and the store after the call.
\<close>

type_synonym store = "table list"

definition alloc :: "store \<Rightarrow> table \<Rightarrow> store \<times> nat" where
  "alloc s t = (s @ [t], length s)"

definition assign :: "store \<Rightarrow> nat \<Rightarrow> str \<Rightarrow> cell list \<Rightarrow> store" where
  "assign s a c vs = s[a := setcol (s ! a) c vs]"

definition preprocess_data_st :: "runtime \<Rightarrow> store \<Rightarrow> nat \<Rightarrow> (exn + nat) \<times> store" where
  "preprocess_data_st rt s df =
     (let (s, df_copy) = alloc s (s ! df)
      in if \<not> has_col (s ! df_copy) c_wind then (Inl KeyError, s)
      else
        let wind_info = map (extract_wind_speed_and_direction rt) (getcol (s ! df_copy) c_wind);
            s = assign s df_copy c_wind_speed (map fst wind_info);
            s = assign s df_copy c_wind_direction (map snd wind_info)
        in if \<not> has_col (s ! df_copy) c_weather then (Inl KeyError, s)
        else
          let s = assign s df_copy c_weather_simple
                    (map (weather_simple rt) (getcol (s ! df_copy) c_weather))
          in if \<not> list_all (has_col (s ! df_copy)) numeric4 then (Inl KeyError, s)
          else
            let (s, df_copy) = alloc s (dropna numeric4 (s ! df_copy));
                s = assign s df_copy c_wind_speed
                      (map (to_numeric rt) (getcol (s ! df_copy) c_wind_speed));
                s = assign s df_copy c_max_temp
                      (map (to_numeric rt) (getcol (s ! df_copy) c_max_temp));
                s = assign s df_copy c_min_temp
                      (map (to_numeric rt) (getcol (s ! df_copy) c_min_temp));
                s = assign s df_copy c_aqi
                      (map (to_numeric rt) (getcol (s ! df_copy) c_aqi));
                (s, df_copy) = alloc s (dropna numeric4 (s ! df_copy));
                s = (if has_col (s ! df_copy) c_date
                     then assign s df_copy c_date (to_datetime rt (getcol (s ! df_copy) c_date))
                     else s)
            in (Inr df_copy, s))"

section \<open>Row-level view of the preprocessor\<close>

text \<open>
  What \<open>preprocess_data\<close> does to the column list and to one row, used to state its
  properties: the derived columns, the numeric coercion, the rows that survive both
  \<open>dropna\<close> calls and the final row of a survivor.
\<close>

definition add_col :: "str \<Rightarrow> str list \<Rightarrow> str list" where
  "add_col c cs = (if c \<in> set cs then cs else cs @ [c])"

definition upd_rows :: "(row \<Rightarrow> row) \<Rightarrow> (nat \<times> row) list \<Rightarrow> (nat \<times> row) list" where
  "upd_rows f rs = map (\<lambda>ir. (fst ir, f (snd ir))) rs"

definition derive_row :: "runtime \<Rightarrow> row \<Rightarrow> row" where
  "derive_row rt r =
     r(c_wind_speed := fst (extract_wind_speed_and_direction rt (r c_wind)),
       c_wind_direction := snd (extract_wind_speed_and_direction rt (r c_wind)),
       c_weather_simple := weather_simple rt (r c_weather))"

definition coerce_row :: "runtime \<Rightarrow> row \<Rightarrow> row" where
  "coerce_row rt r =
     r(c_wind_speed := to_numeric rt (r c_wind_speed),
       c_max_temp := to_numeric rt (r c_max_temp),
       c_min_temp := to_numeric rt (r c_min_temp),
       c_aqi := to_numeric rt (r c_aqi))"

definition date_rows :: "runtime \<Rightarrow> (nat \<times> row) list \<Rightarrow> (nat \<times> row) list" where
  "date_rows rt rs =
     upd_rows (\<lambda>r. r(c_date := to_datetime_cell rt (map (\<lambda>ir. snd ir c_date) rs) (r c_date))) rs"

definition out_columns :: "str list \<Rightarrow> str list" where
  "out_columns cs = add_col c_weather_simple (add_col c_wind_direction (add_col c_wind_speed cs))"

definition out_rows :: "runtime \<Rightarrow> bool \<Rightarrow> (nat \<times> row) list \<Rightarrow> (nat \<times> row) list" where
  "out_rows rt dated rs =
     (let kept = filter (present numeric4)
                   (upd_rows (coerce_row rt) (filter (present numeric4) (upd_rows (derive_row rt) rs)))
      in if dated then date_rows rt kept else kept)"

definition is_num :: "cell \<Rightarrow> bool" where
  "is_num c = (case c of Num x \<Rightarrow> True | _ \<Rightarrow> False)"

definition is_date_or_missing :: "cell \<Rightarrow> bool" where
  "is_date_or_missing c = (case c of Missing \<Rightarrow> True | Date d \<Rightarrow> True | _ \<Rightarrow> False)"

definition clean_row :: "runtime \<Rightarrow> bool \<Rightarrow> row \<Rightarrow> bool" where
  "clean_row rt dated r =
     (derive_row rt r = r \<and> coerce_row rt r = r \<and> list_all (\<lambda>c. is_num (r c)) numeric4
      \<and> (dated \<longrightarrow> is_date_or_missing (r c_date)))"

definition final_row :: "runtime \<Rightarrow> bool \<Rightarrow> cell list \<Rightarrow> row \<Rightarrow> row" where
  "final_row rt dated col r =
     (let r' = coerce_row rt (derive_row rt r)
      in if dated then r'(c_date := to_datetime_cell rt col (r c_date)) else r')"

definition survives :: "runtime \<Rightarrow> nat \<times> row \<Rightarrow> bool" where
  "survives rt ir = list_all (\<lambda>c. coerce_row rt (derive_row rt (snd ir)) c \<noteq> Missing) numeric4"

section \<open>Sample inputs\<close>

text \<open>
  A runtime that knows the ASCII digits and the space, and parses no string; and small
  tables in the shape the data loader produces.
\<close>

definition rt0 :: runtime where
  "rt0 = \<lparr>decimal = (\<lambda>c. if 48 \<le> c \<and> c \<le> 57 then Some (c - 48) else None),
          whitespace = (\<lambda>c. c = 32),
          str_to_num = (\<lambda>s. None),
          date_to_num = (\<lambda>d. None),
          parse_datetime = (\<lambda>col c. None)\<rparr>"

definition sample_row :: "cell \<Rightarrow> cell \<Rightarrow> cell \<Rightarrow> row" where
  "sample_row d w a =
     (\<lambda>c. Missing)(c_date := d, c_max_temp := Num 30, c_min_temp := Num 20,
        c_weather := w, c_wind := Str [21271, 39118, 49, 32423], c_aqi := a)"

definition sample_table :: table where
  "sample_table =
     \<lparr>columns = [c_date, c_max_temp, c_min_temp, c_weather, c_wind, c_aqi],
      rows = [(0, sample_row (Date 3) (Str [22810, 20113]) (Num 80)),
              (1, sample_row (Date 4) (Str [22810, 20113]) Missing),
              (2, sample_row (Str [63]) Missing (Num 7))]\<rparr>"

section \<open>Explanatory regression: \<open>train_aqi_prediction_model\<close>\<close>

text \<open>
  What a function returns: the \<open>{"error": message}\<close> dictionary or its success payload.
\<close>

datatype 'p result = ErrorDict str | Payload 'p

text \<open>
  \<open>pd.get_dummies(df, columns=cols, prefix=prefixes, dummy_na=False)\<close>: the encoded
  columns are removed, and for each of them one indicator column per distinct value, in
  sorted order, named prefix, underscore, value, is appended; every row stays. The encoded
  columns of a preprocessed table hold strings, the only values given a name here. An
  indicator is \<open>Num 1\<close> or \<open>Num 0\<close>.
\<close>

definition str_values :: "cell list \<Rightarrow> str list" where
  "str_values cs = List.map_filter (\<lambda>c. case c of Str s \<Rightarrow> Some s | _ \<Rightarrow> None) cs"

definition dummy_columns :: "table \<Rightarrow> str \<times> str \<Rightarrow> (str \<times> str \<times> str) list" where
  "dummy_columns df cp =
     map (\<lambda>v. (snd cp @ [95] @ v, fst cp, v)) (sort (remdups (str_values (getcol df (fst cp)))))"

definition dummy_row :: "str list \<Rightarrow> (str \<times> str \<times> str) list \<Rightarrow> row \<Rightarrow> row" where
  "dummy_row cols dummies r =
     foldl (\<lambda>r' d. r'(fst d := Num (if r (fst (snd d)) = Str (snd (snd d)) then 1 else 0)))
       (foldl (\<lambda>r' c. r'(c := Missing)) r cols) dummies"

definition get_dummies :: "table \<Rightarrow> (str \<times> str) list \<Rightarrow> exn + table" where
  "get_dummies df specs =
     (if \<not> list_all (\<lambda>cp. has_col df (fst cp)) specs then Inl KeyError
      else
        let dummies = concat (map (dummy_columns df) specs);
            kept = filter (\<lambda>c. c \<notin> set (map fst specs)) (columns df)
        in Inr \<lparr>columns = kept @ map fst dummies,
                rows = map (\<lambda>ir. (fst ir, dummy_row (map fst specs) dummies (snd ir))) (rows df)\<rparr>)"

text \<open>\<open>df[features]\<close> with a list of column names.\<close>

definition select_columns :: "table \<Rightarrow> str list \<Rightarrow> exn + table" where
  "select_columns df cs =
     (if list_all (has_col df) cs then Inr \<lparr>columns = cs, rows = rows df\<rparr> else Inl KeyError)"

definition msg_insufficient :: str where
  "msg_insufficient = [25968, 25454, 19981, 36275, 65288, 60, 51, 48, 26465, 65289, 65292,
     26080, 27861, 35757, 32451, 27169, 22411, 12290]"

definition msg_too_few :: str where
  "msg_too_few = [26377, 25928, 26679, 26412, 36807, 23569, 65292, 26080, 27861, 35757,
     32451, 27169, 22411, 12290]"

text \<open>
  What the call returns or raises, and how many models it fitted.
\<close>

record 'p outcome =
  returned :: "exn + 'p result"
  fit_calls :: nat

text \<open>
  Lines 170-189, the split, the least-squares fit and the metrics, are scikit-learn's;
  they are the parameter \<open>fit\<close>, which takes the feature table and the label column and
  gives the payload or raises.
\<close>

definition train_aqi_prediction_model ::
  "runtime \<Rightarrow> (table \<Rightarrow> cell list \<Rightarrow> exn + 'p) \<Rightarrow> table \<Rightarrow> 'p outcome" where
  "train_aqi_prediction_model rt fit df =
     (case preprocess_data rt df of
        Inl e \<Rightarrow> \<lparr>returned = Inl e, fit_calls = 0\<rparr>
      | Inr df_processed \<Rightarrow>
          if length (rows df_processed) < 30
          then \<lparr>returned = Inr (ErrorDict msg_insufficient), fit_calls = 0\<rparr>
          else
            (case get_dummies df_processed
                    [(c_weather_simple, ascii ''weather''), (c_wind_direction, ascii ''wind_dir'')] of
               Inl e \<Rightarrow> \<lparr>returned = Inl e, fit_calls = 0\<rparr>
             | Inr df_encoded \<Rightarrow>
                 let base_features = [c_max_temp, c_min_temp, c_wind_speed];
                     extra_features =
                       filter (\<lambda>c. prefix (ascii ''weather_'') c \<or> prefix (ascii ''wind_dir_'') c)
                         (columns df_encoded);
                     features = base_features @ extra_features
                 in (case select_columns df_encoded features of
                       Inl e \<Rightarrow> \<lparr>returned = Inl e, fit_calls = 0\<rparr>
                     | Inr X \<Rightarrow>
                         if \<not> has_col df_encoded c_aqi
                         then \<lparr>returned = Inl KeyError, fit_calls = 0\<rparr>
                         else
                           let y = getcol df_encoded c_aqi
                           in if length (rows X) < 30
                              then \<lparr>returned = Inr (ErrorDict msg_too_few), fit_calls = 0\<rparr>
                              else \<lparr>returned = map_sum id Payload (fit X y), fit_calls = 1\<rparr>)))"

definition sample_fit :: "table \<Rightarrow> cell list \<Rightarrow> exn + nat" where
  "sample_fit X y = Inr (length y)"

text \<open>A table of \<open>n\<close> consecutive days, every cell present.\<close>

definition daily_table :: "nat \<Rightarrow> cell \<Rightarrow> table" where
  "daily_table n w =
     \<lparr>columns = [c_date, c_max_temp, c_min_temp, c_weather, c_wind, c_aqi],
      rows = map (\<lambda>k. (k, sample_row (Date (int k)) w (Num 80))) [0..<n]\<rparr>"

section \<open>Supervised dataset builder: \<open>_build_supervised_dataset\<close>\<close>

text \<open>The decimal rendering of a number in an f-string.\<close>

fun str_nat :: "nat \<Rightarrow> str" where
  "str_nat n = (if n < 10 then [48 + n] else str_nat (n div 10) @ [48 + n mod 10])"

definition lag_col :: "nat \<Rightarrow> str" where
  "lag_col i = ascii ''aqi_lag_'' @ str_nat i"

text \<open>
  \<open>df.sort_values("date")\<close> on a date column that holds dates and \<open>NaT\<close>, which is
  what \<open>preprocess_data\<close> leaves there: ascending, \<open>NaT\<close> last. Rows with the same
  date keep their order here; pandas leaves their order to numpy's sort, and the data
  model has one row per date.
\<close>

definition date_of :: "cell \<Rightarrow> int" where
  "date_of c = (case c of Date d \<Rightarrow> d | _ \<Rightarrow> 0)"

definition sort_values_date :: "table \<Rightarrow> table" where
  "sort_values_date df =
     \<lparr>columns = columns df,
      rows = sort_key (\<lambda>ir. date_of (snd ir c_date))
               (filter (\<lambda>ir. snd ir c_date \<noteq> Missing) (rows df))
             @ filter (\<lambda>ir. snd ir c_date = Missing) (rows df)\<rparr>"

text \<open>\<open>s.shift(i)\<close> for \<open>i \<ge> 0\<close> and \<open>s.shift(-1)\<close>: a shift by row position.\<close>

definition shift :: "nat \<Rightarrow> cell list \<Rightarrow> cell list" where
  "shift i xs = replicate (min i (length xs)) Missing @ take (length xs - i) xs"

definition shift_back :: "cell list \<Rightarrow> cell list" where
  "shift_back xs = drop 1 xs @ replicate (min 1 (length xs)) Missing"

text \<open>
  \<open>.dt.dayofweek\<close> (Monday is 0; day 0, 1970-01-01, was a Thursday) and \<open>.dt.month\<close>
  of a day number, by the civil-calendar computation from the days since 0000-03-01.
\<close>

definition dayofweek :: "int \<Rightarrow> int" where
  "dayofweek d = (d + 3) mod 7"

definition month_of :: "int \<Rightarrow> int" where
  "month_of d =
     (let doe = (d + 719468) mod 146097;
          yoe = (doe - doe div 1460 + doe div 36524 - doe div 146096) div 365;
          doy = doe - (365 * yoe + yoe div 4 - yoe div 100);
          mp = (5 * doy + 2) div 153
      in if mp < 10 then mp + 3 else mp - 9)"

definition dt_field :: "(int \<Rightarrow> int) \<Rightarrow> cell \<Rightarrow> cell" where
  "dt_field f c = (case c of Date d \<Rightarrow> Num (of_int (f d)) | _ \<Rightarrow> Missing)"

definition reset_index :: "table \<Rightarrow> table" where
  "reset_index df =
     \<lparr>columns = columns df, rows = zip [0..<length (rows df)] (map snd (rows df))\<rparr>"

text \<open>
  Lines 304-315: the sorted copy with the lag columns, \<open>dow\<close>, \<open>month\<close> and the label.
  The function is only called on a table that \<open>preprocess_data\<close> returned, whose
  \<open>date\<close> column is \<open>datetime64\<close>: dates and \<open>NaT\<close>. A \<open>date\<close> column with a cell
  that is neither a date nor missing is not datetime-like, and the sort or the \<open>.dt\<close>
  accessor raises; the model answers \<open>AttributeError\<close> for all of these columns and does
  not tell which of the two raises (a \<open>TypeError\<close> from the sort of mixed objects comes
  first in pandas), nor an object column of \<open>datetime.date\<close> values from a
  \<open>datetime64\<close> one.
\<close>

definition lagged_table :: "table \<Rightarrow> nat \<Rightarrow> exn + table" where
  "lagged_table df lags =
     (if \<not> has_col df c_date then Inl KeyError
      else if 1 \<le> lags \<and> \<not> has_col df c_aqi then Inl KeyError
      else if \<not> list_all is_date_or_missing (getcol df c_date) then Inl AttributeError
      else if \<not> has_col df c_aqi then Inl KeyError
      else
        let df2 = sort_values_date df;
            df2 = foldl (\<lambda>d i. setcol d (lag_col i) (shift i (getcol d c_aqi))) df2 [1..<lags + 1];
            df2 = setcol df2 c_dow (map (dt_field dayofweek) (getcol df2 c_date));
            df2 = setcol df2 c_month (map (dt_field month_of) (getcol df2 c_date));
            df2 = setcol df2 c_aqi_next (shift_back (getcol df2 c_aqi))
        in Inr df2)"

text \<open>Lines 317-320: \<open>dropna()\<close> over every column, then \<open>reset_index(drop=True)\<close>.\<close>

definition build_supervised_dataset :: "table \<Rightarrow> nat \<Rightarrow> exn + table" where
  "build_supervised_dataset df lags =
     (case lagged_table df lags of
        Inl e \<Rightarrow> Inl e
      | Inr df2 \<Rightarrow> Inr (reset_index (dropna (columns df2) df2)))"

definition add_lags :: "table \<Rightarrow> nat \<Rightarrow> table" where
  "add_lags df2 lags =
     foldl (\<lambda>d i. setcol d (lag_col i) (shift i (getcol d c_aqi))) df2 [1..<lags + 1]"

definition processed_row :: "nat \<Rightarrow> cell \<Rightarrow> row" where
  "processed_row k w =
     (sample_row (Date (int k)) w (Num 80))
       (c_wind_speed := Num 1, c_wind_direction := Str [21271, 39118],
        c_weather_simple := weather_simple rt0 w)"

definition daily_processed :: "nat \<Rightarrow> cell \<Rightarrow> table" where
  "daily_processed n w =
     \<lparr>columns = [c_date, c_max_temp, c_min_temp, c_weather, c_wind, c_aqi, c_wind_speed,
                 c_wind_direction, c_weather_simple],
      rows = map (\<lambda>k. (k, processed_row k w)) [0..<n]\<rparr>"

section \<open>Quantile forecast engine: \<open>forecast_aqi_7_days\<close>\<close>

text \<open>
  A fitted quantile model, as the loop uses it: \<open>float(model.predict(X_pred)[0])\<close> on
  one feature row. Fitting is LightGBM's and a parameter of the model: \<open>fit q X y\<close> is
  \<open>LGBMRegressor(objective="quantile", alpha=q, ...).fit(X, y)\<close>, which gives a model or
  raises.
\<close>

type_synonym model = "cell list \<Rightarrow> real"

text \<open>
  \<open>d[k] = v\<close> on a Python dictionary, which keeps the order of first insertion.
\<close>

fun dict_set :: "('k \<times> 'v) list \<Rightarrow> 'k \<Rightarrow> 'v \<Rightarrow> ('k \<times> 'v) list" where
  "dict_set [] k v = [(k, v)]"
| "dict_set ((k', v') # kvs) k v =
     (if k' = k then (k, v) # kvs else (k', v') # dict_set kvs k v)"

text \<open>Lines 371-387: one model per requested quantile.\<close>

fun train_models ::
  "(real \<Rightarrow> table \<Rightarrow> cell list \<Rightarrow> exn + model) \<Rightarrow> table \<Rightarrow> cell list \<Rightarrow> real list
     \<Rightarrow> (real \<times> model) list \<Rightarrow> exn + (real \<times> model) list" where
  "train_models fit X y [] models_q = Inr models_q"
| "train_models fit X y (q # qs) models_q =
     (case fit q X y of
        Inl e \<Rightarrow> Inl e
      | Inr model \<Rightarrow> train_models fit X y qs (dict_set models_q q model))"

text \<open>
  One entry of \<open>future_meteo_7d\<close>: a dictionary that may lack any of its three keys
  (\<open>None\<close>: the key is absent, and \<open>met.get\<close> falls back on the last observation).
\<close>

record meteo =
  met_max_temp :: "real option"
  met_min_temp :: "real option"
  met_wind_speed :: "real option"

text \<open>What the loop reads and does not change.\<close>

record loop_env =
  env_models :: "(real \<times> model) list"
  env_quantiles :: "real list"
  env_lags :: nat
  env_future :: "meteo list option"
  env_last_date :: int
  env_last_max_temp :: real
  env_last_min_temp :: real
  env_last_wind_speed :: real

text \<open>\<open>xs[-i]\<close> for \<open>i \<ge> 1\<close>, and the lag block of lines 412-413.\<close>

definition neg_index :: "'a list \<Rightarrow> nat \<Rightarrow> exn + 'a" where
  "neg_index xs i =
     (if 1 \<le> i \<and> i \<le> length xs then Inr (xs ! (length xs - i)) else Inl IndexError)"

fun lag_features :: "cell list \<Rightarrow> nat list \<Rightarrow> exn + cell list" where
  "lag_features recent_aqi [] = Inr []"
| "lag_features recent_aqi (i # rest) =
     (case neg_index recent_aqi i of
        Inl e \<Rightarrow> Inl e
      | Inr v \<Rightarrow>
          (case lag_features recent_aqi rest of
             Inl e \<Rightarrow> Inl e
           | Inr vs \<Rightarrow> Inr (v # vs)))"

text \<open>Line 431: the dictionary of predictions, one per requested quantile.\<close>

fun predict_all ::
  "(real \<times> model) list \<Rightarrow> cell list \<Rightarrow> real list \<Rightarrow> (real \<times> real) list
     \<Rightarrow> exn + (real \<times> real) list" where
  "predict_all models_q X_pred [] preds = Inr preds"
| "predict_all models_q X_pred (q # qs) preds =
     (case map_of models_q q of
        None \<Rightarrow> Inl KeyError
      | Some m \<Rightarrow> predict_all models_q X_pred qs (dict_set preds q (m X_pred)))"

text \<open>
  One pass of the loop body, lines 408-454, for the given \<open>step\<close> and the current
  \<open>recent_aqi\<close>: the feature row in the order of \<open>feature_cols\<close>, the point forecast
  \<open>p50\<close> and the forecast point. The default of \<open>preds.get(0.5, ...)\<close> is evaluated
  first, so an empty \<open>preds\<close> raises \<open>IndexError\<close>.
\<close>

record step_result =
  features :: "cell list"
  point :: real
  emitted :: forecast_point

definition dict_get :: "('k \<times> 'v) list \<Rightarrow> 'k \<Rightarrow> 'v \<Rightarrow> 'v" where
  "dict_get d k dflt = (case map_of d k of Some v \<Rightarrow> v | None \<Rightarrow> dflt)"

definition forecast_step :: "loop_env \<Rightarrow> nat \<Rightarrow> cell list \<Rightarrow> exn + step_result" where
  "forecast_step env step recent_aqi =
     (let target_date = env_last_date env + int step
      in case lag_features recent_aqi [1..<env_lags env + 1] of
           Inl e \<Rightarrow> Inl e
         | Inr lag_block \<Rightarrow>
             let met = (case env_future env of
                          None \<Rightarrow> None
                        | Some ms \<Rightarrow> if ms \<noteq> [] \<and> step \<le> length ms
                                     then Some (ms ! (step - 1)) else None);
                 max_temp = (case met of
                               None \<Rightarrow> env_last_max_temp env
                             | Some m \<Rightarrow> (case met_max_temp m of
                                           Some v \<Rightarrow> v | None \<Rightarrow> env_last_max_temp env));
                 min_temp = (case met of
                               None \<Rightarrow> env_last_min_temp env
                             | Some m \<Rightarrow> (case met_min_temp m of
                                           Some v \<Rightarrow> v | None \<Rightarrow> env_last_min_temp env));
                 wind_speed = (case met of
                                 None \<Rightarrow> env_last_wind_speed env
                               | Some m \<Rightarrow> (case met_wind_speed m of
                                             Some v \<Rightarrow> v | None \<Rightarrow> env_last_wind_speed env));
                 X_pred = lag_block @ [Num max_temp, Num min_temp, Num wind_speed,
                            Num (of_int (dayofweek target_date)),
                            Num (of_int (month_of target_date))]
             in case predict_all (env_models env) X_pred (env_quantiles env) [] of
                  Inl e \<Rightarrow> Inl e
                | Inr preds \<Rightarrow>
                    (case preds of
                       [] \<Rightarrow> Inl IndexError
                     | first # others \<Rightarrow>
                         let p50 = dict_get preds (1 / 2) (snd first);
                             p10 = dict_get preds (1 / 10) p50;
                             p90 = dict_get preds (9 / 10) p50
                         in Inr \<lparr>features = X_pred, point = p50,
                                 emitted = make_point target_date p10 p50 p90\<rparr>))"

text \<open>
  The loop of line 407, \<open>for step in range(1, horizon + 1)\<close>: \<open>forecast_loop env step k\<close>
  runs \<open>k\<close> passes starting at \<open>step\<close>; each pass appends its point forecast to
  \<open>recent_aqi\<close> (line 437) before the next one.
\<close>

fun forecast_loop :: "loop_env \<Rightarrow> nat \<Rightarrow> nat \<Rightarrow> cell list \<Rightarrow> exn + step_result list" where
  "forecast_loop env step 0 recent_aqi = Inr []"
| "forecast_loop env step (Suc k) recent_aqi =
     (case forecast_step env step recent_aqi of
        Inl e \<Rightarrow> Inl e
      | Inr r \<Rightarrow>
          (case forecast_loop env (step + 1) k (recent_aqi @ [Num (point r)]) of
             Inl e \<Rightarrow> Inl e
           | Inr rs \<Rightarrow> Inr (r # rs)))"

text \<open>\<open>s.nunique()\<close>, \<open>s.tail(n)\<close>, \<open>s.max()\<close> over the dates, and \<open>float(x)\<close>.\<close>

definition nunique :: "cell list \<Rightarrow> nat" where
  "nunique col = length (remdups (filter (\<lambda>c. c \<noteq> Missing) col))"

definition tail :: "nat \<Rightarrow> 'a list \<Rightarrow> 'a list" where
  "tail n xs = drop (length xs - n) xs"

definition dates_of :: "cell list \<Rightarrow> int list" where
  "dates_of col = List.map_filter (\<lambda>c. case c of Date d \<Rightarrow> Some d | _ \<Rightarrow> None) col"

definition py_float :: "runtime \<Rightarrow> cell \<Rightarrow> exn + real" where
  "py_float rt c =
     (case c of
        Num x \<Rightarrow> Inr x
      | Str s \<Rightarrow> (case str_to_num rt s of Some x \<Rightarrow> Inr x | None \<Rightarrow> Inl ValueError)
      | _ \<Rightarrow> Inl TypeError)"

definition msg_dates :: "nat \<Rightarrow> str" where
  "msg_dates n =
     [26377, 25928, 26085, 26399, 26679, 26412, 19981, 36275, 65288, 38656, 35201, 33267,
      23569, 32] @ str_nat n @
     [32, 22825, 65289, 65292, 26080, 27861, 36827, 34892, 55, 26085, 39044, 27979, 12290]"

definition note_persistence :: str where
  "note_persistence =
     [26410, 26469, 27668, 35937, 29305, 24449, 37319, 29992, 25345, 24179, 20551, 35774,
      65288, 20351, 29992, 26368, 36817, 19968, 22825, 35266, 27979, 20540, 65289, 12290]"

record model_info =
  train_samples :: nat
  info_lags :: nat
  info_quantiles :: "real list"
  info_note :: str

record forecast_payload =
  forecast :: "forecast_point list"
  model_info :: model_info

text \<open>
  Lines 389-405: what the loop starts from. \<open>ds.iloc[-1]\<close> raises on an empty \<open>ds\<close>.
\<close>

definition loop_start ::
  "runtime \<Rightarrow> table \<Rightarrow> table \<Rightarrow> nat \<Rightarrow> real list \<Rightarrow> meteo list option \<Rightarrow> (real \<times> model) list
     \<Rightarrow> exn + (loop_env \<times> cell list)" where
  "loop_start rt df_processed ds lags quantiles future_meteo_7d models_q =
     (if rows ds = [] then Inl IndexError
      else
        let sorted_df = sort_values_date df_processed;
            recent_aqi = tail lags (getcol sorted_df c_aqi)
        in case dates_of (getcol df_processed c_date) of
             [] \<Rightarrow> Inl ValueError
           | d # dates \<Rightarrow>
               let last_date = fold max dates d
               in if rows sorted_df = [] then Inl IndexError
                  else
                    let last_row = snd (last (rows sorted_df))
                    in case py_float rt (last_row c_max_temp) of
                         Inl e \<Rightarrow> Inl e
                       | Inr last_max_temp \<Rightarrow>
                           (case py_float rt (last_row c_min_temp) of
                              Inl e \<Rightarrow> Inl e
                            | Inr last_min_temp \<Rightarrow>
                                (case py_float rt (last_row c_wind_speed) of
                                   Inl e \<Rightarrow> Inl e
                                 | Inr last_wind_speed \<Rightarrow>
                                     Inr (\<lparr>env_models = models_q, env_quantiles = quantiles,
                                            env_lags = lags, env_future = future_meteo_7d,
                                            env_last_date = last_date,
                                            env_last_max_temp = last_max_temp,
                                            env_last_min_temp = last_min_temp,
                                            env_last_wind_speed = last_wind_speed\<rparr>,
                                          recent_aqi))))"

text \<open>
  The function up to the end of its loop: the error dictionary, or the number of training
  rows with the results of the passes; \<open>forecast_aqi_7_days\<close> packs the latter into
  the payload.
\<close>

definition forecast_passes ::
  "runtime \<Rightarrow> (real \<Rightarrow> table \<Rightarrow> cell list \<Rightarrow> exn + model) \<Rightarrow> table \<Rightarrow> nat \<Rightarrow> nat \<Rightarrow> real list
     \<Rightarrow> meteo list option \<Rightarrow> exn + (nat \<times> step_result list) result" where
  "forecast_passes rt fit df horizon lags quantiles future_meteo_7d =
     (case preprocess_data rt df of
        Inl e \<Rightarrow> Inl e
      | Inr df_processed \<Rightarrow>
          if \<not> has_col df_processed c_date then Inl KeyError
          else if nunique (getcol df_processed c_date) < lags + 30
          then Inr (ErrorDict (msg_dates (lags + 30)))
          else
            (case build_supervised_dataset df_processed lags of
               Inl e \<Rightarrow> Inl e
             | Inr ds \<Rightarrow>
                 let feature_cols = map lag_col [1..<lags + 1]
                       @ [c_max_temp, c_min_temp, c_wind_speed, c_dow, c_month]
                 in (case select_columns ds feature_cols of
                       Inl e \<Rightarrow> Inl e
                     | Inr X \<Rightarrow>
                         if \<not> has_col ds c_aqi_next then Inl KeyError
                         else
                           (case train_models fit X (getcol ds c_aqi_next) quantiles [] of
                              Inl e \<Rightarrow> Inl e
                            | Inr models_q \<Rightarrow>
                                (case loop_start rt df_processed ds lags quantiles
                                        future_meteo_7d models_q of
                                   Inl e \<Rightarrow> Inl e
                                 | Inr (env, recent_aqi) \<Rightarrow>
                                     (case forecast_loop env 1 horizon recent_aqi of
                                        Inl e \<Rightarrow> Inl e
                                      | Inr passes \<Rightarrow>
                                          Inr (Payload (length (rows ds), passes))))))))"

definition forecast_aqi_7_days ::
  "runtime \<Rightarrow> (real \<Rightarrow> table \<Rightarrow> cell list \<Rightarrow> exn + model) \<Rightarrow> table \<Rightarrow> nat \<Rightarrow> nat \<Rightarrow> real list
     \<Rightarrow> meteo list option \<Rightarrow> exn + forecast_payload result" where
  "forecast_aqi_7_days rt fit df horizon lags quantiles future_meteo_7d =
     (case forecast_passes rt fit df horizon lags quantiles future_meteo_7d of
        Inl e \<Rightarrow> Inl e
      | Inr (ErrorDict msg) \<Rightarrow> Inr (ErrorDict msg)
      | Inr (Payload (n, passes)) \<Rightarrow>
          Inr (Payload
            \<lparr>forecast = map emitted passes,
             model_info = \<lparr>train_samples = n, info_lags = lags, info_quantiles = quantiles,
                            info_note = note_persistence\<rparr>\<rparr>))"

text \<open>A fitting routine that never raises: the model that predicts its first feature.\<close>

definition sample_quantile_fit :: "real \<Rightarrow> table \<Rightarrow> cell list \<Rightarrow> exn + model" where
  "sample_quantile_fit q X y =
     Inr (\<lambda>x. (case x of Num v # rest \<Rightarrow> v + q | _ \<Rightarrow> q))"

text \<open>The quantile whose prediction is the point forecast.\<close>

definition point_quantile :: "real list \<Rightarrow> real" where
  "point_quantile qs = (if 1 / 2 \<in> set qs then 1 / 2 else hd qs)"

text \<open>\<open>recent_aqi\<close> as pass \<open>k\<close> (counted from 0) finds it.\<close>

definition recent_at :: "cell list \<Rightarrow> step_result list \<Rightarrow> nat \<Rightarrow> cell list" where
  "recent_at recent_aqi passes k = recent_aqi @ map (\<lambda>p. Num (point p)) (take k passes)"

text \<open>A loop environment with the three default quantiles and two lags.\<close>

definition sample_model :: "real \<Rightarrow> model" where
  "sample_model q = (\<lambda>x. (case x of Num v # rest \<Rightarrow> v + q | _ \<Rightarrow> q))"

definition sample_env :: loop_env where
  "sample_env =
     \<lparr>env_models = [(1 / 10, sample_model (1 / 10)), (1 / 2, sample_model (1 / 2)),
                     (9 / 10, sample_model (9 / 10))],
      env_quantiles = [1 / 10, 1 / 2, 9 / 10],
      env_lags = 2, env_future = None, env_last_date = 36,
      env_last_max_temp = 30, env_last_min_temp = 20, env_last_wind_speed = 1\<rparr>"

text \<open>\<open>feature_cols\<close>, lines 359-365.\<close>

definition feature_cols :: "nat \<Rightarrow> str list" where
  "feature_cols lags =
     map lag_col [1..<lags + 1] @ [c_max_temp, c_min_temp, c_wind_speed, c_dow, c_month]"

text \<open>
  The last day a pandas \<open>Timestamp\<close> can hold, 2262-04-11, as a day number. The calendar
  of this model has no end; in the code \<open>pd.Timestamp(target_date)\<close> raises for a later
  forecast date.
\<close>

definition timestamp_max_day :: int where
  "timestamp_max_day = 106751"

section \<open>Three-factor heatmap: \<open>analyze_multi_factor_relationship\<close>\<close>

text \<open>
  The categories of the two \<open>pd.cut\<close> calls, in category order, and the labels the source
  gives them.
\<close>

datatype temp_bin = Very_low | Low | Medium | High | Very_high

datatype wind_bin = Breeze | Gentle | Strong | Gale

definition temp_bins :: "temp_bin list" where
  "temp_bins = [Very_low, Low, Medium, High, Very_high]"

definition wind_bins :: "wind_bin list" where
  "wind_bins = [Breeze, Gentle, Strong, Gale]"

fun temp_label :: "temp_bin \<Rightarrow> str" where
  "temp_label Very_low = [24456, 20302]"
| "temp_label Low = [20302]"
| "temp_label Medium = [20013]"
| "temp_label High = [39640]"
| "temp_label Very_high = [24456, 39640]"

fun wind_label :: "wind_bin \<Rightarrow> str" where
  "wind_label Breeze = [24494, 39118]"
| "wind_label Gentle = [21644, 39118]"
| "wind_label Strong = [24378, 39118]"
| "wind_label Gale = [28872, 39118]"

text \<open>
  What pandas supplies to this function and the model takes as a parameter:
  \<^item> \<open>cut5 col\<close>: \<open>pd.cut(col, bins=5, include_lowest=True)\<close>, the category of a value
    among five equal-width bins whose edges pandas derives from the minimum and the
    maximum of the column (\<open>None\<close>: \<open>NaN\<close>), or the exception it raises (bin edges that
    are not unique);
  \<^item> \<open>value_counts_index col\<close>: the index of \<open>col.value_counts()\<close>, the distinct values
    by descending count; the order among values of the same count is left to pandas'
    sort.
\<close>

record pandas =
  cut5 :: "real list \<Rightarrow> exn + (real \<Rightarrow> temp_bin option)"
  value_counts_index :: "str list \<Rightarrow> str list"

definition value_counts_ok :: "str list \<Rightarrow> str list \<Rightarrow> bool" where
  "value_counts_ok col idx \<longleftrightarrow>
     distinct idx \<and> set idx = set col
     \<and> (\<forall>i j. i < j \<and> j < length idx \<longrightarrow> count_list col (idx ! j) \<le> count_list col (idx ! i))"

text \<open>
  \<open>pd.cut(x, bins=[-0.1, 2, 4, 6, 12], include_lowest=True)\<close>: the intervals are closed on
  the right, the first one also on the left; a value outside them has no category. The
  lowest edge is the float \<open>-0.1\<close>.
\<close>

definition wind_bin_of :: "real \<Rightarrow> wind_bin option" where
  "wind_bin_of x =
     (if x < fl (- (1 / 10)) \<or> 12 < x then None
      else if x \<le> 2 then Some Breeze
      else if x \<le> 4 then Some Gentle
      else if x \<le> 6 then Some Strong
      else Some Gale)"

definition num_of :: "cell \<Rightarrow> real option" where
  "num_of c = (case c of Num x \<Rightarrow> Some x | _ \<Rightarrow> None)"

definition nums :: "cell list \<Rightarrow> real list" where
  "nums cs = List.map_filter num_of cs"

text \<open>
  The group a row belongs to in \<open>groupby(["temp_bin", "wind_bin", "weather_simple"])\<close>;
  a row with a missing key is in no group.
\<close>

type_synonym heat_key = "temp_bin \<times> wind_bin \<times> str"

definition cell_key :: "(real \<Rightarrow> temp_bin option) \<Rightarrow> row \<Rightarrow> heat_key option" where
  "cell_key temp_bin r =
     (case (r c_max_temp, r c_wind_speed, r c_weather_simple) of
        (Num t, Num w, Str s) \<Rightarrow>
          (case (temp_bin t, wind_bin_of w) of
             (Some tb, Some wb) \<Rightarrow> Some (tb, wb, s)
           | _ \<Rightarrow> None)
      | _ \<Rightarrow> None)"

text \<open>The \<open>aqi\<close> values of a group, in row order.\<close>

definition cell_aqi :: "(real \<Rightarrow> temp_bin option) \<Rightarrow> (nat \<times> row) list \<Rightarrow> heat_key \<Rightarrow> real list" where
  "cell_aqi temp_bin rs k =
     nums (map (\<lambda>ir. snd ir c_aqi) (filter (\<lambda>ir. cell_key temp_bin (snd ir) = Some k) rs))"

text \<open>
  \<open>mean()\<close> of a group: pandas adds the values up in row order with Kahan's compensated
  summation and divides by their number, all in float arithmetic.
\<close>

definition kahan_step :: "real \<times> real \<Rightarrow> real \<Rightarrow> real \<times> real" where
  "kahan_step acc val =
     (let sumx = fst acc; compensation = snd acc;
          y = float_sub val compensation;
          t = float_add sumx y;
          compensation = float_sub (float_sub t sumx) y
      in (t, compensation))"

definition group_mean :: "real list \<Rightarrow> real" where
  "group_mean xs = float_div (fst (foldl kahan_step (0, 0) xs)) (of_nat (length xs))"

text \<open>Lines 237-238: \<open>value_counts().nlargest(6).index\<close> and the \<open>isin\<close> filter.\<close>

definition top_weather :: "pandas \<Rightarrow> table \<Rightarrow> str list" where
  "top_weather pd df_processed =
     take 6 (value_counts_index pd (str_values (getcol df_processed c_weather_simple)))"

definition df_filtered :: "pandas \<Rightarrow> table \<Rightarrow> (nat \<times> row) list" where
  "df_filtered pd df_processed =
     filter (\<lambda>ir. case snd ir c_weather_simple of
                    Str s \<Rightarrow> s \<in> set (top_weather pd df_processed)
                  | _ \<Rightarrow> False)
       (rows df_processed)"

record heat_record =
  hr_temp_bin :: str
  hr_wind_bin :: str
  hr_weather_simple :: str
  hr_aqi :: real

text \<open>
  Lines 216-258. The grouped means are listed by temperature category, wind category and
  \<open>weather_simple\<close> in ascending order; \<open>dropna()\<close> removes the groups without a value,
  so that the result is the same whether pandas lists the unobserved combinations of
  categories or not. The columns read are those \<open>preprocess_data\<close> always returns.
\<close>

definition analyze_multi_factor_relationship ::
  "runtime \<Rightarrow> pandas \<Rightarrow> table \<Rightarrow> exn + heat_record list" where
  "analyze_multi_factor_relationship rt pd df =
     (case preprocess_data rt df of
        Inl e \<Rightarrow> Inl e
      | Inr df_processed \<Rightarrow>
          if rows df_processed = [] then Inr []
          else
            (case cut5 pd (nums (getcol df_processed c_max_temp)) of
               Inl e \<Rightarrow> Inl e
             | Inr temp_bin \<Rightarrow>
                 let filtered = df_filtered pd df_processed;
                     weathers = sort (remdups (str_values (map (\<lambda>ir. snd ir c_weather_simple) filtered)));
                     groups = List.product temp_bins (List.product wind_bins weathers);
                     heatmap_data = filter (\<lambda>k. cell_aqi temp_bin filtered k \<noteq> []) groups
                 in Inr (map (\<lambda>k. \<lparr>hr_temp_bin = temp_label (fst k),
                                     hr_wind_bin = wind_label (fst (snd k)),
                                     hr_weather_simple = snd (snd k),
                                     hr_aqi = group_mean (cell_aqi temp_bin filtered k)\<rparr>)
                           heatmap_data)))"

text \<open>
  A sample: a \<open>cut\<close> that puts every value in the middle bin, which is where pandas puts
  the value of a constant column, and the distinct values in order of first appearance,
  sorted by descending count with a stable sort.
\<close>

definition pd0 :: pandas where
  "pd0 = \<lparr>cut5 = (\<lambda>col. Inr (\<lambda>x. Some Medium)),
           value_counts_index =
             (\<lambda>col. sort_key (\<lambda>v. - int (count_list col v)) (rev (remdups (rev col))))\<rparr>"

section \<open>Properties\<close>

lemma py_round_cases:
  fixes x :: real and f :: int
  assumes "\<lfloor>x\<rfloor> = f"
  shows "x - of_int f < 1 / 2 \<Longrightarrow> py_round x = f"
    and "1 / 2 < x - of_int f \<Longrightarrow> py_round x = f + 1"
    and "x - of_int f = 1 / 2 \<Longrightarrow> py_round x = (if even f then f else f + 1)"
  unfolding py_round_def Let_def assms by simp_all

lemma py_round_le_even:
  assumes "even b"
  shows "py_round x \<le> b \<longleftrightarrow> x \<le> of_int b + 1 / 2"
proof -
  obtain f where f: "\<lfloor>x\<rfloor> = f" by simp
  have fl: "of_int f \<le> x" and fu: "x < of_int f + 1"
    using f by linarith+
  have lt_iff: "of_int f < (of_int b :: real) + 1 \<longleftrightarrow> f \<le> b"
  proof -
    have "of_int f < (of_int (b + 1) :: real) \<longleftrightarrow> f < b + 1" by (rule of_int_less_iff)
    then show ?thesis by simp
  qed
  have le_iff: "of_int f + 1 \<le> (of_int b :: real) \<longleftrightarrow> f + 1 \<le> b"
  proof -
    have "of_int (f + 1) \<le> (of_int b :: real) \<longleftrightarrow> f + 1 \<le> b" by (rule of_int_le_iff)
    then show ?thesis by simp
  qed
  consider (lo) "x - of_int f < 1 / 2" | (hi) "1 / 2 < x - of_int f"
    | (half) "x - of_int f = 1 / 2" by linarith
  then show ?thesis
  proof cases
    case lo
    have r: "py_round x = f" by (rule py_round_cases(1) [OF f lo])
    have "x \<le> of_int b + 1 / 2 \<longleftrightarrow> of_int f < (of_int b :: real) + 1"
    proof
      assume "x \<le> of_int b + 1 / 2" then show "of_int f < (of_int b :: real) + 1"
        using fl by linarith
    next
      assume "of_int f < (of_int b :: real) + 1"
      then have "f \<le> b" using lt_iff by simp
      then have "of_int f \<le> (of_int b :: real)" by simp
      then show "x \<le> of_int b + 1 / 2" using lo by linarith
    qed
    then show ?thesis using r lt_iff by simp
  next
    case hi
    have r: "py_round x = f + 1" by (rule py_round_cases(2) [OF f hi])
    have "x \<le> of_int b + 1 / 2 \<longleftrightarrow> of_int f + 1 \<le> (of_int b :: real)"
    proof
      assume "x \<le> of_int b + 1 / 2"
      then have "of_int f < (of_int b :: real)" using hi by linarith
      then have "f < b" by simp
      then have "f + 1 \<le> b" by simp
      then show "of_int f + 1 \<le> (of_int b :: real)" using le_iff by simp
    next
      assume "of_int f + 1 \<le> (of_int b :: real)"
      then show "x \<le> of_int b + 1 / 2" using fu by linarith
    qed
    then show ?thesis using r le_iff by simp
  next
    case half
    have r: "py_round x = (if even f then f else f + 1)"
      by (rule py_round_cases(3) [OF f half])
    have "x \<le> of_int b + 1 / 2 \<longleftrightarrow> of_int f \<le> (of_int b :: real)"
      using half by linarith
    then have xs: "x \<le> of_int b + 1 / 2 \<longleftrightarrow> f \<le> b" by simp
    show ?thesis
    proof (cases "even f")
      case True
      then show ?thesis using r xs by simp
    next
      case False
      then have "f \<noteq> b" using assms by auto
      then show ?thesis using r xs False by auto
    qed
  qed
qed

lemma py_round_of_int: "py_round (of_int k) = k"
  by (simp add: py_round_def)

lemma py_round_ge_floor: "\<lfloor>x\<rfloor> \<le> py_round x"
  by (simp add: py_round_def Let_def)

lemma py_round_near: "\<bar>of_int (py_round x) - x\<bar> \<le> 1 / 2"
proof -
  obtain f where f: "\<lfloor>x\<rfloor> = f" by simp
  have fl: "of_int f \<le> x" and fu: "x < of_int f + 1"
    using f by linarith+
  consider (lo) "x - of_int f < 1 / 2" | (hi) "1 / 2 < x - of_int f"
    | (half) "x - of_int f = 1 / 2" by linarith
  then show ?thesis
  proof cases
    case lo
    show ?thesis using py_round_cases(1) [OF f lo] fl lo by simp
  next
    case hi
    show ?thesis using py_round_cases(2) [OF f hi] fu hi by simp
  next
    case half
    show ?thesis using py_round_cases(3) [OF f half] half by (simp split: if_splits)
  qed
qed

lemma py_round_nd_unit:
  assumes "0 \<le> c" "c \<le> 1"
  shows "0 \<le> py_round_nd c 3 \<and> py_round_nd c 3 \<le> 1"
proof -
  have "0 \<le> \<lfloor>c * 10 ^ 3\<rfloor>" using assms by simp
  then have lo: "0 \<le> py_round (c * 10 ^ 3)" using py_round_ge_floor order_trans by blast
  have "c * 10 ^ 3 \<le> of_int 1000 + 1 / 2" using assms by simp
  then have hi: "py_round (c * 10 ^ 3) \<le> 1000"
    using py_round_le_even [of 1000 "c * 10 ^ 3"] by simp
  have "real_of_int (py_round (c * 10 ^ 3)) \<le> 1000" using hi by linarith
  then show ?thesis using lo by (simp add: py_round_nd_def)
qed

lemma py_round_nd_0: "py_round_nd 0 n = 0"
  by (simp add: py_round_nd_def py_round_def)

lemma py_round_nd_1: "py_round_nd 1 n = 1"
proof -
  have "py_round (of_int (10 ^ n)) = 10 ^ n" by (rule py_round_of_int)
  then show ?thesis by (simp add: py_round_nd_def)
qed

lemma py_round_bounds: "\<lfloor>x\<rfloor> \<le> py_round x \<and> py_round x \<le> \<lfloor>x\<rfloor> + 1"
  by (simp add: py_round_def Let_def)

lemma py_round_mono:
  assumes "x \<le> y"
  shows "py_round x \<le> py_round y"
proof (cases "\<lfloor>x\<rfloor> = \<lfloor>y\<rfloor>")
  case True
  then show ?thesis using assms by (simp add: py_round_def Let_def)
next
  case False
  then have "\<lfloor>x\<rfloor> < \<lfloor>y\<rfloor>" using floor_mono [OF assms] by linarith
  then show ?thesis using py_round_bounds [of x] py_round_bounds [of y] by linarith
qed

lemma py_round_minus: "py_round (- x) = - py_round x"
proof (cases "x = of_int \<lfloor>x\<rfloor>")
  case True
  then obtain k where k: "x = of_int k" ..
  have "py_round (of_int (- k)) = - k" by (rule py_round_of_int)
  then show ?thesis unfolding k by (simp add: py_round_of_int)
next
  case False
  define f where "f = \<lfloor>x\<rfloor>"
  have lo: "of_int f < x" using False f_def by (metis less_eq_real_def of_int_floor_le)
  have hi: "x < of_int f + 1" unfolding f_def by linarith
  have fx: "\<lfloor>x\<rfloor> = f" by (simp add: f_def)
  have fm: "\<lfloor>- x\<rfloor> = - f - 1" using lo hi by (intro floor_unique) simp_all
  consider (a) "x - of_int f < 1 / 2" | (b) "1 / 2 < x - of_int f" | (c) "x - of_int f = 1 / 2"
    by linarith
  then show ?thesis
  proof cases
    case a
    have "1 / 2 < - x - of_int (- f - 1)" using a by simp
    from py_round_cases(2) [OF fm this] py_round_cases(1) [OF fx a] show ?thesis by simp
  next
    case b
    have "- x - of_int (- f - 1) < 1 / 2" using b by simp
    from py_round_cases(1) [OF fm this] py_round_cases(2) [OF fx b] show ?thesis by simp
  next
    case c
    have "- x - of_int (- f - 1) = 1 / 2" using c by simp
    from py_round_cases(3) [OF fm this] py_round_cases(3) [OF fx c] show ?thesis by simp
  qed
qed


lemma spacing_pos: "0 < spacing x"
  by (simp add: spacing_def)

lemma spacing_minus: "spacing (- x) = spacing x"
  by (simp add: spacing_def binade_def)

lemma fl_minus: "fl (- x) = - fl x"
  by (simp add: fl_def spacing_minus py_round_minus)

lemma fl_0: "fl 0 = 0"
  by (simp add: fl_def py_round_def)

lemma bitlen_mono:
  assumes "a \<le> b"
  shows "bitlen a \<le> bitlen b"
proof (cases "0 < a")
  case True
  then have "0 < b" using assms by simp
  have "log 2 (of_int a) \<le> log 2 (of_int b)" using True assms by simp
  then have "\<lfloor>log 2 (of_int a)\<rfloor> \<le> \<lfloor>log 2 (of_int b)\<rfloor>" by (rule floor_mono)
  then show ?thesis using True \<open>0 < b\<close> by (simp add: bitlen_alt_def)
next
  case False
  then show ?thesis by (simp add: bitlen_alt_def)
qed

lemma bitlen_eq:
  assumes "2 ^ k \<le> n" and "n < 2 ^ (k + 1)"
  shows "bitlen n = int k + 1"
proof -
  have pos: "0 < n" using assms(1) by (smt (verit) zero_less_power)
  from bitlen_bounds [OF pos]
  have lo: "2 ^ nat (bitlen n - 1) \<le> n" and hi: "n < 2 ^ nat (bitlen n)" by simp_all
  have "(2::int) ^ nat (bitlen n - 1) < 2 ^ (k + 1)" using lo assms(2) by linarith
  then have a: "nat (bitlen n - 1) < k + 1" by (simp only: power_strict_increasing_iff [of 2] one_less_numeral_iff semiring_norm)
  have "(2::int) ^ k < 2 ^ nat (bitlen n)" using hi assms(1) by linarith
  then have b: "k < nat (bitlen n)" by (simp only: power_strict_increasing_iff [of 2] one_less_numeral_iff semiring_norm)
  show ?thesis using a b by linarith
qed

lemma spacing_eq:
  assumes "2 ^ (52 + s) \<le> \<bar>x\<bar> * 2 ^ 1074" and "\<bar>x\<bar> * 2 ^ 1074 < 2 ^ (53 + s)"
  shows "spacing x = 2 ^ s / 2 ^ 1074"
proof -
  let ?n = "\<lfloor>\<bar>x\<bar> * 2 ^ 1074\<rfloor>"
  have lo: "(2::int) ^ (52 + s) \<le> ?n" using assms(1) by (simp add: le_floor_iff)
  have "?n < 2 ^ (53 + s)" using assms(2) by (simp add: floor_less_iff)
  then have hi: "?n < 2 ^ ((52 + s) + 1)" by simp
  have "bitlen ?n = int (52 + s) + 1" by (rule bitlen_eq [OF lo hi])
  then show ?thesis by (simp add: spacing_def binade_def)
qed

lemma fl_1: "fl 1 = 1"
proof -
  have sp: "spacing 1 = 1 / 2 ^ 52" using spacing_eq [of 1022 1] by simp
  show ?thesis unfolding fl_def sp by (simp add: py_round_def)
qed

lemma fl_120: "fl 120 = 120"
proof -
  have sp: "spacing 120 = 1 / 2 ^ 46" using spacing_eq [of 1028 120] by simp
  show ?thesis unfolding fl_def sp by (simp add: py_round_def)
qed

lemma binade_mono:
  assumes "\<bar>x\<bar> \<le> \<bar>y\<bar>"
  shows "binade x \<le> binade y"
proof -
  have "\<bar>x\<bar> * 2 ^ 1074 \<le> \<bar>y\<bar> * 2 ^ 1074" using assms by simp
  then have "\<lfloor>\<bar>x\<bar> * 2 ^ 1074\<rfloor> \<le> \<lfloor>\<bar>y\<bar> * 2 ^ 1074\<rfloor>" by (rule floor_mono)
  then have "bitlen \<lfloor>\<bar>x\<bar> * 2 ^ 1074\<rfloor> \<le> bitlen \<lfloor>\<bar>y\<bar> * 2 ^ 1074\<rfloor>" by (rule bitlen_mono)
  then show ?thesis unfolding binade_def by linarith
qed

lemma binade_upper: "\<bar>x\<bar> * 2 ^ 1074 < 2 ^ (53 + binade x)"
proof -
  let ?n = "\<lfloor>\<bar>x\<bar> * 2 ^ 1074\<rfloor>"
  have "?n < 2 ^ (53 + binade x)"
  proof (cases "0 < ?n")
    case True
    have le: "nat (bitlen ?n) \<le> 53 + binade x" unfolding binade_def by linarith
    have "?n < 2 ^ nat (bitlen ?n)" using bitlen_bounds [OF True] by simp
    also have "\<dots> \<le> 2 ^ (53 + binade x)" using le by (rule power_increasing) simp
    finally show ?thesis .
  next
    case False
    have "(0::int) < 2 ^ (53 + binade x)" by simp
    then show ?thesis using False by linarith
  qed
  then show ?thesis by (simp add: floor_less_iff)
qed

lemma binade_lower:
  assumes "0 < binade x"
  shows "2 ^ (52 + binade x) \<le> \<bar>x\<bar> * 2 ^ 1074"
proof -
  let ?n = "\<lfloor>\<bar>x\<bar> * 2 ^ 1074\<rfloor>"
  have b: "bitlen ?n = 53 + int (binade x)" using assms unfolding binade_def by linarith
  then have "bitlen ?n \<noteq> 0" by linarith
  then have pos: "0 < ?n" using bitlen_eq_zero_iff [of ?n] by linarith
  have e: "nat (bitlen ?n - 1) = 52 + binade x" using b by linarith
  have "2 ^ (52 + binade x) \<le> ?n" using bitlen_bounds [OF pos] unfolding e by simp
  then show ?thesis by (simp add: le_floor_iff)
qed

lemma fl_nonneg:
  assumes "0 \<le> x"
  shows "0 \<le> fl x"
proof -
  have "0 \<le> x / spacing x" using assms spacing_pos [of x] by simp
  then have "py_round 0 \<le> py_round (x / spacing x)" by (rule py_round_mono)
  then have "0 \<le> py_round (x / spacing x)" by (simp add: py_round_def)
  then show ?thesis using spacing_pos [of x] by (simp add: fl_def)
qed

lemma fl_upper:
  assumes "0 \<le> x"
  shows "fl x \<le> 2 ^ (53 + binade x) / 2 ^ 1074"
proof -
  have "x * 2 ^ 1074 < 2 ^ (53 + binade x)" using binade_upper [of x] assms by simp
  then have "x / spacing x \<le> 2 ^ 53"
    by (simp add: spacing_def power_add field_simps)
  then have "x / spacing x \<le> of_int (2 ^ 53)" by simp
  then have "py_round (x / spacing x) \<le> py_round (of_int (2 ^ 53))" by (rule py_round_mono)
  then have "py_round (x / spacing x) \<le> 2 ^ 53" by (simp only: py_round_of_int)
  then have "real_of_int (py_round (x / spacing x)) \<le> real_of_int (2 ^ 53)"
    by (simp only: of_int_le_iff)
  then have "real_of_int (py_round (x / spacing x)) \<le> 2 ^ 53" by simp
  then have "fl x \<le> 2 ^ 53 * spacing x"
    unfolding fl_def using spacing_pos [of x] by (simp only: mult_le_cancel_right_pos)
  then show ?thesis by (simp add: spacing_def power_add)
qed

lemma fl_lower:
  assumes "0 \<le> x" and "0 < binade x"
  shows "2 ^ (52 + binade x) / 2 ^ 1074 \<le> fl x"
proof -
  have "2 ^ (52 + binade x) \<le> x * 2 ^ 1074" using binade_lower [OF assms(2)] assms(1) by simp
  then have "2 ^ 52 \<le> x / spacing x"
    by (simp add: spacing_def power_add field_simps)
  then have "of_int (2 ^ 52) \<le> x / spacing x" by simp
  then have "py_round (of_int (2 ^ 52)) \<le> py_round (x / spacing x)" by (rule py_round_mono)
  then have "2 ^ 52 \<le> py_round (x / spacing x)" by (simp only: py_round_of_int)
  then have "real_of_int (2 ^ 52) \<le> real_of_int (py_round (x / spacing x))"
    by (simp only: of_int_le_iff)
  then have "2 ^ 52 \<le> real_of_int (py_round (x / spacing x))" by simp
  then have "2 ^ 52 * spacing x \<le> fl x"
    unfolding fl_def using spacing_pos [of x] by (simp only: mult_le_cancel_right_pos)
  then show ?thesis by (simp add: spacing_def power_add)
qed

lemma fl_mono_nonneg:
  assumes "0 \<le> x" and "x \<le> y"
  shows "fl x \<le> fl y"
proof -
  have y: "0 \<le> y" using assms by simp
  have le: "binade x \<le> binade y" using assms by (intro binade_mono) simp
  show ?thesis
  proof (cases "binade x = binade y")
    case True
    then have sp: "spacing x = spacing y" by (simp add: spacing_def)
    have "x / spacing y \<le> y / spacing y" using assms(2) spacing_pos [of y] by (simp add: divide_right_mono)
    then have "py_round (x / spacing y) \<le> py_round (y / spacing y)" by (rule py_round_mono)
    then have "real_of_int (py_round (x / spacing y)) \<le> real_of_int (py_round (y / spacing y))" by linarith
    then show ?thesis unfolding fl_def sp using spacing_pos [of y] by (simp only: mult_le_cancel_right_pos)
  next
    case False
    then have lt: "binade x < binade y" using le by simp
    then have pos: "0 < binade y" by simp
    have "fl x \<le> 2 ^ (53 + binade x) / 2 ^ 1074" by (rule fl_upper [OF assms(1)])
    also have "\<dots> \<le> 2 ^ (52 + binade y) / 2 ^ 1074"
    proof -
      have "53 + binade x \<le> 52 + binade y" using lt by simp
      then have "(2::real) ^ (53 + binade x) \<le> 2 ^ (52 + binade y)" by (rule power_increasing) simp
      then show ?thesis by (simp add: divide_right_mono)
    qed
    also have "\<dots> \<le> fl y" by (rule fl_lower [OF y pos])
    finally show ?thesis .
  qed
qed

lemma fl_mono:
  assumes "x \<le> y"
  shows "fl x \<le> fl y"
proof -
  consider (a) "0 \<le> x" | (b) "x < 0" "0 \<le> y" | (c) "y < 0" using assms by linarith
  then show ?thesis
  proof cases
    case a
    then show ?thesis using assms by (rule fl_mono_nonneg)
  next
    case b
    have "0 \<le> fl (- x)" using b(1) by (intro fl_nonneg) simp
    then have "fl x \<le> 0" by (simp add: fl_minus)
    then show ?thesis using fl_nonneg [OF b(2)] by linarith
  next
    case c
    have "fl (- y) \<le> fl (- x)" using c assms by (intro fl_mono_nonneg) simp_all
    then show ?thesis by (simp add: fl_minus)
  qed
qed


lemma fl_binade_eq:
  assumes "2 ^ (52 + s) \<le> \<bar>x\<bar> * 2 ^ 1074" and "\<bar>x\<bar> * 2 ^ 1074 < 2 ^ (53 + s)"
  shows "fl x = of_int (py_round (x * 2 ^ 1074 / 2 ^ s)) * 2 ^ s / 2 ^ 1074"
  unfolding fl_def spacing_eq [OF assms] by simp

lemma float_div_nonpos:
  assumes "w \<le> 0"
  shows "float_div w 120 \<le> 0"
proof -
  have "w / 120 \<le> 0" using assms by simp
  then have "fl (w / 120) \<le> fl 0" by (rule fl_mono)
  then show ?thesis by (simp add: float_div_def fl_0)
qed

lemma float_div_ge_1:
  assumes "120 \<le> w"
  shows "1 \<le> float_div w 120"
proof -
  have "1 \<le> w / 120" using assms by simp
  then have "fl 1 \<le> fl (w / 120)" by (rule fl_mono)
  then show ?thesis by (simp add: float_div_def fl_1)
qed

lemma float_sub_1_ge:
  assumes "q \<le> 0"
  shows "1 \<le> float_sub 1 q"
proof -
  have "1 \<le> 1 - q" using assms by simp
  then have "fl 1 \<le> fl (1 - q)" by (rule fl_mono)
  then show ?thesis by (simp add: float_sub_def fl_1)
qed

lemma float_sub_1_le:
  assumes "1 \<le> q"
  shows "float_sub 1 q \<le> 0"
proof -
  have "1 - q \<le> 0" using assms by simp
  then have "fl (1 - q) \<le> fl 0" by (rule fl_mono)
  then show ?thesis by (simp add: float_sub_def fl_0)
qed

lemma float_sub_ge_120:
  assumes "120 \<le> p90 - p10"
  shows "120 \<le> float_sub p90 p10"
proof -
  have "fl 120 \<le> fl (p90 - p10)" using assms by (rule fl_mono)
  then show ?thesis by (simp add: float_sub_def fl_120)
qed

lemma confidence_formula:
  "confidence p10 p90 = max 0 (min 1 (float_sub 1 (float_div (float_sub p90 p10) 120)))"
proof (cases "0 \<le> float_sub p90 p10")
  case True
  then show ?thesis by (simp add: confidence_def Let_def max_def)
next
  case False
  then have neg: "float_sub p90 p10 \<le> 0" by simp
  have l: "confidence p10 p90 = 1"
    using False by (simp add: confidence_def Let_def max_def float_div_def float_sub_def fl_0 fl_1)
  have "1 \<le> float_sub 1 (float_div (float_sub p90 p10) 120)"
    by (rule float_sub_1_ge [OF float_div_nonpos [OF neg]])
  then show ?thesis unfolding l by (simp add: max_def min_def)
qed

lemma confidence_unit: "0 \<le> confidence p10 p90 \<and> confidence p10 p90 \<le> 1"
  by (simp add: confidence_def Let_def max_def min_def)

lemma round_float_unit:
  assumes "0 \<le> c" and "c \<le> 1"
  shows "0 \<le> round_float c 3 \<and> round_float c 3 \<le> 1"
proof -
  from py_round_nd_unit [OF assms]
  have lo: "0 \<le> py_round_nd c 3" and hi: "py_round_nd c 3 \<le> 1" by simp_all
  have "fl 0 \<le> fl (py_round_nd c 3)" using lo by (rule fl_mono)
  moreover have "fl (py_round_nd c 3) \<le> fl 1" using hi by (rule fl_mono)
  ultimately show ?thesis by (simp add: round_float_def fl_0 fl_1)
qed

lemma round_float_0: "round_float 0 n = 0"
  by (simp add: round_float_def py_round_nd_0 fl_0)

lemma round_float_1: "round_float 1 n = 1"
  by (simp add: round_float_def py_round_nd_1 fl_1)

lemma confidence_zero_width: "confidence p p = 1"
  by (simp add: confidence_def Let_def float_sub_def float_div_def fl_0 fl_1)

lemma confidence_wide:
  assumes "120 \<le> float_sub p90 p10"
  shows "confidence p10 p90 = 0"
proof -
  have "float_sub 1 (float_div (float_sub p90 p10) 120) \<le> 0"
    by (rule float_sub_1_le [OF float_div_ge_1 [OF assms]])
  then show ?thesis unfolding confidence_formula by (simp add: max_def min_def)
qed

lemma confidence_0_1: "confidence 0 1 = 2233034815237871 / 2251799813685248"
proof -
  have a: "float_sub 1 0 = 1" by (simp add: float_sub_def fl_1)
  have b: "float_div (max 0 1) 120 = 4803839602528529 / 576460752303423488"
    unfolding float_div_def using fl_binade_eq [of 1015 "1 / 120"] by (simp add: py_round_def)
  have c: "float_sub 1 (4803839602528529 / 576460752303423488)
           = 2233034815237871 / 2251799813685248"
    unfolding float_sub_def
    using fl_binade_eq [of 1021 "1 - 4803839602528529 / 576460752303423488"]
    by (simp add: py_round_def)
  show ?thesis unfolding confidence_def Let_def a b c by simp
qed

lemma confidence_0_45: "confidence 0 (9 / 2) = 8669429282688205 / 9007199254740992"
proof -
  have a: "float_sub (9 / 2) 0 = 9 / 2"
    unfolding float_sub_def using fl_binade_eq [of 1024 "9 / 2"] by (simp add: py_round_def)
  have b: "float_div (max 0 (9 / 2)) 120 = 5404319552844595 / 144115188075855872"
    unfolding float_div_def using fl_binade_eq [of 1017 "3 / 80"] by (simp add: py_round_def)
  have c: "float_sub 1 (5404319552844595 / 144115188075855872)
           = 8669429282688205 / 9007199254740992"
    unfolding float_sub_def
    using fl_binade_eq [of 1021 "1 - 5404319552844595 / 144115188075855872"]
    by (simp add: py_round_def)
  show ?thesis unfolding confidence_def Let_def a b c by simp
qed

lemma round_float_992:
  "round_float (2233034815237871 / 2251799813685248) 3 = 1116892707587883 / 1125899906842624"
proof -
  have a: "py_round_nd (2233034815237871 / 2251799813685248) 3 = 124 / 125"
    by (simp add: py_round_nd_def py_round_def)
  have b: "fl (124 / 125) = 1116892707587883 / 1125899906842624"
    using fl_binade_eq [of 1021 "124 / 125"] by (simp add: py_round_def)
  show ?thesis unfolding round_float_def a b ..
qed

lemma round_float_963:
  "round_float (8669429282688205 / 9007199254740992) 3 = 8673932882315575 / 9007199254740992"
proof -
  have a: "py_round_nd (8669429282688205 / 9007199254740992) 3 = 963 / 1000"
    by (simp add: py_round_nd_def py_round_def)
  have b: "fl (963 / 1000) = 8673932882315575 / 9007199254740992"
    using fl_binade_eq [of 1021 "963 / 1000"] by (simp add: py_round_def)
  show ?thesis unfolding round_float_def a b ..
qed

lemma fl_near: "\<bar>fl x - x\<bar> \<le> spacing x / 2"
proof -
  let ?g = "spacing x"
  have g: "0 < ?g" by (rule spacing_pos)
  have "\<bar>fl x - x\<bar> = \<bar>(of_int (py_round (x / ?g)) - x / ?g) * ?g\<bar>"
    using g by (simp add: fl_def left_diff_distrib)
  also have "\<dots> = \<bar>of_int (py_round (x / ?g)) - x / ?g\<bar> * ?g"
    using g by (simp add: abs_mult)
  also have "\<dots> \<le> 1 / 2 * ?g"
    using py_round_near [of "x / ?g"] g by (simp only: mult_le_cancel_right_pos)
  finally show ?thesis by simp
qed

lemma spacing_le:
  assumes "\<bar>x\<bar> * 2 ^ 1074 < 2 ^ (53 + s)"
  shows "spacing x \<le> 2 ^ s / 2 ^ 1074"
proof -
  have "binade x \<le> s"
  proof (cases "0 < binade x")
    case True
    have "(2::real) ^ (52 + binade x) \<le> \<bar>x\<bar> * 2 ^ 1074" by (rule binade_lower [OF True])
    then have "(2::real) ^ (52 + binade x) < 2 ^ (53 + s)" using assms by linarith
    then have "52 + binade x < 53 + s"
      by (simp only: power_strict_increasing_iff [of 2] one_less_numeral_iff semiring_norm)
    then show ?thesis by simp
  next
    case False
    then show ?thesis by simp
  qed
  then have "(2::real) ^ binade x \<le> 2 ^ s" by (rule power_increasing) simp
  then show ?thesis by (simp add: spacing_def divide_right_mono)
qed

lemma fl_near_unit:
  assumes "\<bar>x\<bar> \<le> 1"
  shows "\<bar>fl x - x\<bar> \<le> 1 / 2 ^ 53"
proof -
  have "\<bar>x\<bar> * 2 ^ 1074 \<le> 1 * 2 ^ 1074" using assms by (simp only: mult_le_cancel_right_pos zero_less_power zero_less_numeral)
  also have "\<dots> < (2::real) ^ (53 + 1022)" by simp
  finally have "spacing x \<le> 2 ^ 1022 / 2 ^ 1074" by (rule spacing_le)
  then have "spacing x \<le> 1 / 2 ^ 52" by simp
  then show ?thesis using fl_near [of x] by simp
qed

lemma fl_near_128:
  assumes "\<bar>x\<bar> < 128"
  shows "\<bar>fl x - x\<bar> \<le> 1 / 2 ^ 47"
proof -
  have "\<bar>x\<bar> * 2 ^ 1074 < 128 * 2 ^ 1074" using assms by (simp only: mult_less_cancel_right_pos zero_less_power zero_less_numeral)
  also have "\<dots> = (2::real) ^ (53 + 1028)" by simp
  finally have "spacing x \<le> 2 ^ 1028 / 2 ^ 1074" by (rule spacing_le)
  then have "spacing x \<le> 1 / 2 ^ 46" by simp
  then show ?thesis using fl_near [of x] by simp
qed

lemma confidence_near_formula:
  "\<bar>confidence p10 p90 - max 0 (min 1 (1 - (p90 - p10) / 120))\<bar> \<le> 1 / 2 ^ 51"
proof -
  let ?w = "p90 - p10"
  consider (neg) "?w \<le> 0" | (wide) "120 \<le> ?w" | (mid) "0 < ?w" "?w < 120" by linarith
  then show ?thesis
  proof cases
    case neg
    then have "fl ?w \<le> fl 0" by (rule fl_mono)
    then have "float_sub p90 p10 \<le> 0" by (simp add: float_sub_def fl_0)
    then have "1 \<le> float_sub 1 (float_div (float_sub p90 p10) 120)"
      by (intro float_sub_1_ge float_div_nonpos)
    then have "confidence p10 p90 = 1" unfolding confidence_formula by (simp add: max_def min_def)
    moreover have "max 0 (min 1 (1 - ?w / 120)) = 1" using neg by (simp add: max_def min_def)
    ultimately show ?thesis by simp
  next
    case wide
    then have "confidence p10 p90 = 0" by (intro confidence_wide float_sub_ge_120)
    moreover have "max 0 (min 1 (1 - ?w / 120)) = 0" using wide by (simp add: max_def min_def)
    ultimately show ?thesis by simp
  next
    case mid
    define wf where "wf = float_sub p90 p10"
    define q where "q = float_div wf 120"
    define r where "r = float_sub 1 q"
    have "fl 0 \<le> fl ?w" using mid(1) by (intro fl_mono) simp
    then have w0: "0 \<le> wf" by (simp add: wf_def float_sub_def fl_0)
    have "fl ?w \<le> fl 120" using mid(2) by (intro fl_mono) simp
    then have w1: "wf \<le> 120" by (simp add: wf_def float_sub_def fl_120)
    have ew: "\<bar>wf - ?w\<bar> \<le> 1 / 2 ^ 47"
      unfolding wf_def float_sub_def by (rule fl_near_128) (use mid in simp)
    have d0: "0 \<le> wf / 120" and d1: "wf / 120 \<le> 1" using w0 w1 by simp_all
    have "fl 0 \<le> fl (wf / 120)" using d0 by (rule fl_mono)
    then have q0: "0 \<le> q" by (simp add: q_def float_div_def fl_0)
    have "fl (wf / 120) \<le> fl 1" using d1 by (rule fl_mono)
    then have q1: "q \<le> 1" by (simp add: q_def float_div_def fl_1)
    have eq: "\<bar>q - wf / 120\<bar> \<le> 1 / 2 ^ 53"
      unfolding q_def float_div_def by (rule fl_near_unit) (use d0 d1 in simp)
    have "fl 0 \<le> fl (1 - q)" using q1 by (intro fl_mono) simp
    then have r0: "0 \<le> r" by (simp add: r_def float_sub_def fl_0)
    have "fl (1 - q) \<le> fl 1" using q0 by (intro fl_mono) simp
    then have r1: "r \<le> 1" by (simp add: r_def float_sub_def fl_1)
    have er: "\<bar>r - (1 - q)\<bar> \<le> 1 / 2 ^ 53"
      unfolding r_def float_sub_def by (rule fl_near_unit) (use q0 q1 in simp)
    have c: "confidence p10 p90 = r"
      unfolding confidence_formula using r0 r1 by (simp add: r_def q_def wf_def max_def min_def)
    have f: "max 0 (min 1 (1 - ?w / 120)) = 1 - ?w / 120"
      using mid by (simp add: max_def min_def)
    have "\<bar>wf - ?w\<bar> / 120 \<le> 1 / 2 ^ 47 / 120" using ew by (simp only: divide_right_mono)
    then have ew': "\<bar>wf / 120 - ?w / 120\<bar> \<le> 1 / 2 ^ 53"
      by (simp add: diff_divide_distrib [symmetric])
    have "\<bar>r - (1 - ?w / 120)\<bar> \<le> \<bar>r - (1 - q)\<bar> + \<bar>q - wf / 120\<bar> + \<bar>wf / 120 - ?w / 120\<bar>"
      by linarith
    also have "\<dots> \<le> 1 / 2 ^ 53 + 1 / 2 ^ 53 + 1 / 2 ^ 53" using er eq ew' by linarith
    also have "\<dots> \<le> 1 / 2 ^ 51" by simp
    finally show ?thesis unfolding c f .
  qed
qed

lemma emitted_near_formula:
  "\<bar>round_float (confidence p10 p90) 3 - max 0 (min 1 (1 - (p90 - p10) / 120))\<bar>
     \<le> 1 / 2000 + 1 / 2 ^ 50"
proof -
  let ?c = "confidence p10 p90"
  let ?d = "py_round_nd ?c 3"
  from confidence_unit [of p10 p90] have c0: "0 \<le> ?c" and c1: "?c \<le> 1" by simp_all
  from py_round_nd_unit [OF c0 c1] have d: "\<bar>?d\<bar> \<le> 1" by simp
  have a: "\<bar>fl ?d - ?d\<bar> \<le> 1 / 2 ^ 53" by (rule fl_near_unit [OF d])
  define k where "k = real_of_int (py_round (?c * 10 ^ 3))"
  have n: "\<bar>k - ?c * 1000\<bar> \<le> 1 / 2"
    using py_round_near [of "?c * 10 ^ 3"] by (simp add: k_def)
  have eq: "?d - ?c = (k - ?c * 1000) / 1000"
    by (simp add: py_round_nd_def k_def diff_divide_distrib)
  have "\<bar>(k - ?c * 1000) / 1000\<bar> = \<bar>k - ?c * 1000\<bar> / 1000"
    by (simp only: abs_divide abs_numeral)
  also have "\<dots> \<le> 1 / 2 / 1000" using n by (simp only: divide_right_mono zero_le_numeral)
  finally have b: "\<bar>?d - ?c\<bar> \<le> 1 / 2000" unfolding eq by simp
  have "\<bar>fl ?d - max 0 (min 1 (1 - (p90 - p10) / 120))\<bar>
      \<le> \<bar>fl ?d - ?d\<bar> + \<bar>?d - ?c\<bar> + \<bar>?c - max 0 (min 1 (1 - (p90 - p10) / 120))\<bar>"
    by linarith
  also have "\<dots> \<le> 1 / 2 ^ 53 + 1 / 2000 + 1 / 2 ^ 51"
    using a b confidence_near_formula [of p10 p90] by linarith
  also have "\<dots> \<le> 1 / 2000 + 1 / 2 ^ 50" by simp
  finally show ?thesis by (simp add: round_float_def)
qed

text \<open>
  Claim C3, as stated, at the step with \<open>p10 = 0\<close>, \<open>p90 = 1\<close>: the confidence the
  forecast point carries is \<open>round(confidence, 3)\<close>, the float \<open>0.992\<close>; it is neither
  \<open>1 - 1/120\<close> nor the float \<open>0.9916666666666667\<close> that the formula gives in float
  arithmetic.
\<close>

theorem emitted_confidence_not_formula:
  "fp_confidence (make_point 0 0 (1 / 2) 1) \<noteq> max 0 (min 1 (1 - (1 - 0) / 120))
   \<and> fp_confidence (make_point 0 0 (1 / 2) 1) \<noteq> confidence 0 1"
proof -
  have "fp_confidence (make_point 0 0 (1 / 2) 1) = round_float (confidence 0 1) 3"
    by (simp add: make_point_def)
  then have e: "fp_confidence (make_point 0 0 (1 / 2) 1) = 1116892707587883 / 1125899906842624"
    by (simp only: confidence_0_1 round_float_992)
  show ?thesis unfolding e confidence_0_1 by simp
qed

text \<open>
  Claim C3, amended: for all \<open>p10\<close>, \<open>p90\<close> (also \<open>p90 < p10\<close>) the confidence computed
  at a forecast step, with the width clamped first, equals the formula
  \<open>max(0, min(1, 1 - (p90 - p10)/120))\<close> evaluated in float arithmetic; the value the
  forecast point carries is \<open>round\<close> of that number to 3 decimals. It lies in
  \<open>[0, 1]\<close>, is 1 for a zero-width interval and 0 for a width of 120 or more. The
  computed confidence is within \<open>2\<^sup>-\<^sup>5\<^sup>1\<close> of the formula over the real numbers, and
  the value carried within \<open>0.0005 + 2\<^sup>-\<^sup>5\<^sup>0\<close>.
\<close>

theorem confidence_clamped:
  "confidence p10 p90 = max 0 (min 1 (float_sub 1 (float_div (float_sub p90 p10) 120)))
   \<and> fp_confidence (make_point d p10 p50 p90)
       = round_float (max 0 (min 1 (float_sub 1 (float_div (float_sub p90 p10) 120)))) 3
   \<and> 0 \<le> fp_confidence (make_point d p10 p50 p90)
   \<and> fp_confidence (make_point d p10 p50 p90) \<le> 1
   \<and> (p90 = p10 \<longrightarrow> confidence p10 p90 = 1 \<and> fp_confidence (make_point d p10 p50 p90) = 1)
   \<and> (120 \<le> p90 - p10 \<longrightarrow> 120 \<le> float_sub p90 p10)
   \<and> (120 \<le> float_sub p90 p10 \<longrightarrow>
        confidence p10 p90 = 0 \<and> fp_confidence (make_point d p10 p50 p90) = 0)
   \<and> \<bar>confidence p10 p90 - max 0 (min 1 (1 - (p90 - p10) / 120))\<bar> \<le> 1 / 2 ^ 51
   \<and> \<bar>fp_confidence (make_point d p10 p50 p90) - max 0 (min 1 (1 - (p90 - p10) / 120))\<bar>
        \<le> 1 / 2000 + 1 / 2 ^ 50"
proof -
  let ?c = "confidence p10 p90"
  have e: "fp_confidence (make_point d p10 p50 p90) = round_float ?c 3"
    by (simp add: make_point_def)
  have u: "0 \<le> round_float ?c 3 \<and> round_float ?c 3 \<le> 1"
    using confidence_unit [of p10 p90] round_float_unit by blast
  have z: "p90 = p10 \<longrightarrow> ?c = 1 \<and> round_float ?c 3 = 1"
    by (simp add: confidence_zero_width round_float_1)
  have g: "120 \<le> p90 - p10 \<longrightarrow> 120 \<le> float_sub p90 p10"
    using float_sub_ge_120 by blast
  have w: "120 \<le> float_sub p90 p10 \<longrightarrow> ?c = 0 \<and> round_float ?c 3 = 0"
    using confidence_wide [of p90 p10] by (simp add: round_float_0)
  have n: "\<bar>?c - max 0 (min 1 (1 - (p90 - p10) / 120))\<bar> \<le> 1 / 2 ^ 51"
    by (rule confidence_near_formula)
  have m: "\<bar>round_float ?c 3 - max 0 (min 1 (1 - (p90 - p10) / 120))\<bar> \<le> 1 / 2000 + 1 / 2 ^ 50"
    by (rule emitted_near_formula)
  show ?thesis
    unfolding e confidence_formula [symmetric] using u z g w n m by blast
qed

theorem confidence_clamped_witness:
  "fp_confidence (make_point 0 40 40 40) = 1 \<and> fp_confidence (make_point 0 0 60 120) = 0
   \<and> fp_confidence (make_point 0 0 2 (9 / 2)) = 8673932882315575 / 9007199254740992"
proof -
  have a: "fp_confidence (make_point 0 40 40 40) = 1"
    using confidence_clamped [of 40 40 0 40] by simp
  have b: "fp_confidence (make_point 0 0 60 120) = 0"
    using confidence_clamped [of 0 120 0 60] by (elim conjE) simp
  have "fp_confidence (make_point 0 0 2 (9 / 2)) = round_float (confidence 0 (9 / 2)) 3"
    using confidence_clamped [of 0 "9 / 2" 0 2] by (elim conjE) simp
  then have c: "fp_confidence (make_point 0 0 2 (9 / 2)) = 8673932882315575 / 9007199254740992"
    by (simp only: confidence_0_45 round_float_963)
  show ?thesis using a b c by simp
qed

text \<open>
  Claim C8: the classifier is a function of its argument alone; it rounds to the nearest
  integer (ties to even) and buckets with inclusive upper bounds 50, 100, 150, 200, 300,
  which on the unrounded input are the bounds 50.5, 100.5, 150.5, 200.5 and 300.5.
  The ten boundary inputs map to the tiers the claim lists, \<open>None\<close>/\<open>NaN\<close> maps to
  the unknown category, and the seven categories have different level names.
\<close>

theorem aqi_level_details_tiers:
  "aqi_level_details None = level_unknown
   \<and> \<bar>of_int (py_round x) - x\<bar> \<le> 1 / 2
   \<and> aqi_level_details (Some x) =
       (if x \<le> 50 + 1 / 2 then level_good
        else if x \<le> 100 + 1 / 2 then level_moderate
        else if x \<le> 150 + 1 / 2 then level_sensitive
        else if x \<le> 200 + 1 / 2 then level_unhealthy
        else if x \<le> 300 + 1 / 2 then level_very_unhealthy
        else level_hazardous)
   \<and> map (\<lambda>v. aqi_level_details (Some v)) [50, 51, 100, 101, 150, 151, 200, 201, 300, 301]
       = [level_good, level_moderate, level_moderate, level_sensitive, level_sensitive,
          level_unhealthy, level_unhealthy, level_very_unhealthy, level_very_unhealthy,
          level_hazardous]
   \<and> distinct (map level [level_unknown, level_good, level_moderate, level_sensitive,
        level_unhealthy, level_very_unhealthy, level_hazardous])"
proof -
  have b: "py_round y \<le> 50 \<longleftrightarrow> y \<le> 50 + 1 / 2" "py_round y \<le> 100 \<longleftrightarrow> y \<le> 100 + 1 / 2"
    "py_round y \<le> 150 \<longleftrightarrow> y \<le> 150 + 1 / 2" "py_round y \<le> 200 \<longleftrightarrow> y \<le> 200 + 1 / 2"
    "py_round y \<le> 300 \<longleftrightarrow> y \<le> 300 + 1 / 2" for y
    using py_round_le_even [of 50 y] py_round_le_even [of 100 y] py_round_le_even [of 150 y]
      py_round_le_even [of 200 y] py_round_le_even [of 300 y] by simp_all
  have g: "aqi_level_details (Some y) =
       (if y \<le> 50 + 1 / 2 then level_good
        else if y \<le> 100 + 1 / 2 then level_moderate
        else if y \<le> 150 + 1 / 2 then level_sensitive
        else if y \<le> 200 + 1 / 2 then level_unhealthy
        else if y \<le> 300 + 1 / 2 then level_very_unhealthy
        else level_hazardous)" for y
    unfolding aqi_level_details_def Let_def option.case b by (rule refl)
  have d: "distinct (map level [level_unknown, level_good, level_moderate, level_sensitive,
        level_unhealthy, level_very_unhealthy, level_hazardous])"
    by (simp add: level_unknown_def level_good_def level_moderate_def level_sensitive_def
        level_unhealthy_def level_very_unhealthy_def level_hazardous_def)
  have n: "aqi_level_details None = level_unknown" by (simp add: aqi_level_details_def)
  have pts: "map (\<lambda>v. aqi_level_details (Some v)) [50, 51, 100, 101, 150, 151, 200, 201, 300, 301]
       = [level_good, level_moderate, level_moderate, level_sensitive, level_sensitive,
          level_unhealthy, level_unhealthy, level_very_unhealthy, level_very_unhealthy,
          level_hazardous]"
    unfolding list.map g by simp
  show ?thesis using n py_round_near [of x] g [of x] pts d by blast
qed

subsection \<open>The preprocessor row by row\<close>

lemmas col_defs = c_date_def c_max_temp_def c_min_temp_def c_weather_def c_wind_def c_aqi_def
  c_wind_speed_def c_wind_direction_def c_weather_simple_def c_dow_def c_month_def
  c_aqi_next_def

lemma col_neq [simp]:
  "c_date \<noteq> c_max_temp" "c_date \<noteq> c_min_temp" "c_date \<noteq> c_weather"
  "c_date \<noteq> c_wind" "c_date \<noteq> c_aqi" "c_date \<noteq> c_wind_speed"
  "c_date \<noteq> c_wind_direction" "c_date \<noteq> c_weather_simple" "c_date \<noteq> c_dow"
  "c_date \<noteq> c_month" "c_date \<noteq> c_aqi_next" "c_max_temp \<noteq> c_date"
  "c_max_temp \<noteq> c_min_temp" "c_max_temp \<noteq> c_weather" "c_max_temp \<noteq> c_wind"
  "c_max_temp \<noteq> c_aqi" "c_max_temp \<noteq> c_wind_speed"
  "c_max_temp \<noteq> c_wind_direction" "c_max_temp \<noteq> c_weather_simple"
  "c_max_temp \<noteq> c_dow" "c_max_temp \<noteq> c_month" "c_max_temp \<noteq> c_aqi_next"
  "c_min_temp \<noteq> c_date" "c_min_temp \<noteq> c_max_temp" "c_min_temp \<noteq> c_weather"
  "c_min_temp \<noteq> c_wind" "c_min_temp \<noteq> c_aqi" "c_min_temp \<noteq> c_wind_speed"
  "c_min_temp \<noteq> c_wind_direction" "c_min_temp \<noteq> c_weather_simple"
  "c_min_temp \<noteq> c_dow" "c_min_temp \<noteq> c_month" "c_min_temp \<noteq> c_aqi_next"
  "c_weather \<noteq> c_date" "c_weather \<noteq> c_max_temp" "c_weather \<noteq> c_min_temp"
  "c_weather \<noteq> c_wind" "c_weather \<noteq> c_aqi" "c_weather \<noteq> c_wind_speed"
  "c_weather \<noteq> c_wind_direction" "c_weather \<noteq> c_weather_simple"
  "c_weather \<noteq> c_dow" "c_weather \<noteq> c_month" "c_weather \<noteq> c_aqi_next"
  "c_wind \<noteq> c_date" "c_wind \<noteq> c_max_temp" "c_wind \<noteq> c_min_temp"
  "c_wind \<noteq> c_weather" "c_wind \<noteq> c_aqi" "c_wind \<noteq> c_wind_speed"
  "c_wind \<noteq> c_wind_direction" "c_wind \<noteq> c_weather_simple" "c_wind \<noteq> c_dow"
  "c_wind \<noteq> c_month" "c_wind \<noteq> c_aqi_next" "c_aqi \<noteq> c_date"
  "c_aqi \<noteq> c_max_temp" "c_aqi \<noteq> c_min_temp" "c_aqi \<noteq> c_weather"
  "c_aqi \<noteq> c_wind" "c_aqi \<noteq> c_wind_speed" "c_aqi \<noteq> c_wind_direction"
  "c_aqi \<noteq> c_weather_simple" "c_aqi \<noteq> c_dow" "c_aqi \<noteq> c_month"
  "c_aqi \<noteq> c_aqi_next" "c_wind_speed \<noteq> c_date" "c_wind_speed \<noteq> c_max_temp"
  "c_wind_speed \<noteq> c_min_temp" "c_wind_speed \<noteq> c_weather"
  "c_wind_speed \<noteq> c_wind" "c_wind_speed \<noteq> c_aqi"
  "c_wind_speed \<noteq> c_wind_direction" "c_wind_speed \<noteq> c_weather_simple"
  "c_wind_speed \<noteq> c_dow" "c_wind_speed \<noteq> c_month"
  "c_wind_speed \<noteq> c_aqi_next" "c_wind_direction \<noteq> c_date"
  "c_wind_direction \<noteq> c_max_temp" "c_wind_direction \<noteq> c_min_temp"
  "c_wind_direction \<noteq> c_weather" "c_wind_direction \<noteq> c_wind"
  "c_wind_direction \<noteq> c_aqi" "c_wind_direction \<noteq> c_wind_speed"
  "c_wind_direction \<noteq> c_weather_simple" "c_wind_direction \<noteq> c_dow"
  "c_wind_direction \<noteq> c_month" "c_wind_direction \<noteq> c_aqi_next"
  "c_weather_simple \<noteq> c_date" "c_weather_simple \<noteq> c_max_temp"
  "c_weather_simple \<noteq> c_min_temp" "c_weather_simple \<noteq> c_weather"
  "c_weather_simple \<noteq> c_wind" "c_weather_simple \<noteq> c_aqi"
  "c_weather_simple \<noteq> c_wind_speed" "c_weather_simple \<noteq> c_wind_direction"
  "c_weather_simple \<noteq> c_dow" "c_weather_simple \<noteq> c_month"
  "c_weather_simple \<noteq> c_aqi_next" "c_dow \<noteq> c_date" "c_dow \<noteq> c_max_temp"
  "c_dow \<noteq> c_min_temp" "c_dow \<noteq> c_weather" "c_dow \<noteq> c_wind"
  "c_dow \<noteq> c_aqi" "c_dow \<noteq> c_wind_speed" "c_dow \<noteq> c_wind_direction"
  "c_dow \<noteq> c_weather_simple" "c_dow \<noteq> c_month" "c_dow \<noteq> c_aqi_next"
  "c_month \<noteq> c_date" "c_month \<noteq> c_max_temp" "c_month \<noteq> c_min_temp"
  "c_month \<noteq> c_weather" "c_month \<noteq> c_wind" "c_month \<noteq> c_aqi"
  "c_month \<noteq> c_wind_speed" "c_month \<noteq> c_wind_direction"
  "c_month \<noteq> c_weather_simple" "c_month \<noteq> c_dow" "c_month \<noteq> c_aqi_next"
  "c_aqi_next \<noteq> c_date" "c_aqi_next \<noteq> c_max_temp"
  "c_aqi_next \<noteq> c_min_temp" "c_aqi_next \<noteq> c_weather" "c_aqi_next \<noteq> c_wind"
  "c_aqi_next \<noteq> c_aqi" "c_aqi_next \<noteq> c_wind_speed"
  "c_aqi_next \<noteq> c_wind_direction" "c_aqi_next \<noteq> c_weather_simple"
  "c_aqi_next \<noteq> c_dow" "c_aqi_next \<noteq> c_month"
  by (simp_all add: col_defs ascii_def)

lemma setcol_upd:
  assumes "vs = map (\<lambda>ir. g (snd ir)) (rows df)"
  shows "setcol df c vs =
     \<lparr>columns = add_col c (columns df), rows = upd_rows (\<lambda>r. r(c := g r)) (rows df)\<rparr>"
  unfolding assms setcol_def add_col_def upd_rows_def
  by (simp add: zip_map2 zip_same_conv_map)

lemma upd_rows_comp: "upd_rows f (upd_rows g rs) = upd_rows (\<lambda>r. f (g r)) rs"
  by (simp add: upd_rows_def comp_def)

lemma getcol_upd [simp]:
  "getcol \<lparr>columns = cs, rows = upd_rows f rs\<rparr> c = map (\<lambda>ir. f (snd ir) c) rs"
  by (simp add: getcol_def upd_rows_def comp_def)

lemma set_add_col [simp]: "set (add_col c cs) = insert c (set cs)"
  by (auto simp: add_col_def)

lemma preprocess_data_rows:
  assumes "c_wind \<in> set (columns t)" "c_weather \<in> set (columns t)"
    "c_max_temp \<in> set (columns t)" "c_min_temp \<in> set (columns t)" "c_aqi \<in> set (columns t)"
  shows "preprocess_data rt t =
     Inr \<lparr>columns = out_columns (columns t),
          rows = out_rows rt (c_date \<in> set (columns t)) (rows t)\<rparr>"
proof -
  let ?E = "extract_wind_speed_and_direction rt"
  define wi where "wi = map ?E (getcol t c_wind)"
  define d1 where "d1 = setcol t c_wind_speed (map fst wi)"
  define d2 where "d2 = setcol d1 c_wind_direction (map snd wi)"
  define d3 where "d3 = setcol d2 c_weather_simple (map (weather_simple rt) (getcol d2 c_weather))"
  define d4 where "d4 = dropna numeric4 d3"
  define d5 where "d5 = setcol d4 c_wind_speed (map (to_numeric rt) (getcol d4 c_wind_speed))"
  define d6 where "d6 = setcol d5 c_max_temp (map (to_numeric rt) (getcol d5 c_max_temp))"
  define d7 where "d7 = setcol d6 c_min_temp (map (to_numeric rt) (getcol d6 c_min_temp))"
  define d8 where "d8 = setcol d7 c_aqi (map (to_numeric rt) (getcol d7 c_aqi))"
  define d9 where "d9 = dropna numeric4 d8"
  define d10 where "d10 = (if has_col d9 c_date
     then setcol d9 c_date (to_datetime rt (getcol d9 c_date)) else d9)"
  have unf: "preprocess_data rt t =
     (if \<not> has_col t c_wind then Inl KeyError
      else if \<not> has_col d2 c_weather then Inl KeyError
      else if \<not> list_all (has_col d3) numeric4 then Inl KeyError
      else Inr d10)"
    unfolding preprocess_data_def Let_def d10_def d9_def d8_def d7_def d6_def d5_def d4_def
      d3_def d2_def d1_def wi_def by (rule refl)
  have e1: "d1 = \<lparr>columns = add_col c_wind_speed (columns t),
      rows = upd_rows (\<lambda>r. r(c_wind_speed := fst (?E (r c_wind)))) (rows t)\<rparr>"
    unfolding d1_def by (rule setcol_upd) (simp add: wi_def getcol_def)
  have e2: "d2 = \<lparr>columns = add_col c_wind_direction (add_col c_wind_speed (columns t)),
      rows = upd_rows (\<lambda>r. r(c_wind_speed := fst (?E (r c_wind)),
                               c_wind_direction := snd (?E (r c_wind)))) (rows t)\<rparr>"
  proof -
    have "d2 = \<lparr>columns = add_col c_wind_direction (columns d1),
       rows = upd_rows (\<lambda>r. r(c_wind_direction := snd (?E (r c_wind)))) (rows d1)\<rparr>"
      unfolding d2_def by (rule setcol_upd) (simp add: wi_def getcol_def e1 upd_rows_def)
    then show ?thesis by (simp add: e1 upd_rows_comp)
  qed
  have e3: "d3 = \<lparr>columns = out_columns (columns t), rows = upd_rows (derive_row rt) (rows t)\<rparr>"
  proof -
    have "d3 = \<lparr>columns = add_col c_weather_simple (columns d2),
       rows = upd_rows (\<lambda>r. r(c_weather_simple := weather_simple rt (r c_weather))) (rows d2)\<rparr>"
      unfolding d3_def by (rule setcol_upd) (simp add: getcol_def)
    then show ?thesis
      by (simp add: e2 upd_rows_comp out_columns_def derive_row_def [abs_def])
  qed
  have e4: "d4 = \<lparr>columns = out_columns (columns t),
      rows = filter (present numeric4) (upd_rows (derive_row rt) (rows t))\<rparr>"
    by (simp add: d4_def dropna_def e3)
  have c5: "out_columns (columns t) = add_col c (out_columns (columns t))"
    if "c \<in> set (columns t) \<or> c = c_wind_speed" for c
    using that by (auto simp: out_columns_def add_col_def)
  let ?R4 = "filter (present numeric4) (upd_rows (derive_row rt) (rows t))"
  have e5: "d5 = \<lparr>columns = out_columns (columns t),
      rows = upd_rows (\<lambda>r. r(c_wind_speed := to_numeric rt (r c_wind_speed))) ?R4\<rparr>"
  proof -
    have "d5 = \<lparr>columns = add_col c_wind_speed (columns d4),
       rows = upd_rows (\<lambda>r. r(c_wind_speed := to_numeric rt (r c_wind_speed))) (rows d4)\<rparr>"
      unfolding d5_def by (rule setcol_upd) (simp add: getcol_def)
    then show ?thesis using c5 [of c_wind_speed] by (simp add: e4)
  qed
  have e6: "d6 = \<lparr>columns = out_columns (columns t),
      rows = upd_rows (\<lambda>r. r(c_wind_speed := to_numeric rt (r c_wind_speed),
                               c_max_temp := to_numeric rt (r c_max_temp))) ?R4\<rparr>"
  proof -
    have "d6 = \<lparr>columns = add_col c_max_temp (columns d5),
       rows = upd_rows (\<lambda>r. r(c_max_temp := to_numeric rt (r c_max_temp))) (rows d5)\<rparr>"
      unfolding d6_def by (rule setcol_upd) (simp add: getcol_def)
    then show ?thesis using c5 [of c_max_temp] assms by (simp add: e5 upd_rows_comp)
  qed
  have e7: "d7 = \<lparr>columns = out_columns (columns t),
      rows = upd_rows (\<lambda>r. r(c_wind_speed := to_numeric rt (r c_wind_speed),
                               c_max_temp := to_numeric rt (r c_max_temp),
                               c_min_temp := to_numeric rt (r c_min_temp))) ?R4\<rparr>"
  proof -
    have "d7 = \<lparr>columns = add_col c_min_temp (columns d6),
       rows = upd_rows (\<lambda>r. r(c_min_temp := to_numeric rt (r c_min_temp))) (rows d6)\<rparr>"
      unfolding d7_def by (rule setcol_upd) (simp add: getcol_def)
    then show ?thesis using c5 [of c_min_temp] assms by (simp add: e6 upd_rows_comp)
  qed
  have e8: "d8 = \<lparr>columns = out_columns (columns t), rows = upd_rows (coerce_row rt) ?R4\<rparr>"
  proof -
    have "d8 = \<lparr>columns = add_col c_aqi (columns d7),
       rows = upd_rows (\<lambda>r. r(c_aqi := to_numeric rt (r c_aqi))) (rows d7)\<rparr>"
      unfolding d8_def by (rule setcol_upd) (simp add: getcol_def)
    then show ?thesis using c5 [of c_aqi] assms
      by (simp add: e7 upd_rows_comp coerce_row_def [abs_def])
  qed
  let ?R9 = "filter (present numeric4) (upd_rows (coerce_row rt) ?R4)"
  have e9: "d9 = \<lparr>columns = out_columns (columns t), rows = ?R9\<rparr>"
    by (simp add: d9_def dropna_def e8)
  have hd: "has_col d9 c_date \<longleftrightarrow> c_date \<in> set (columns t)"
    by (simp add: e9 has_col_def out_columns_def)
  have e10: "d10 = \<lparr>columns = out_columns (columns t),
      rows = out_rows rt (c_date \<in> set (columns t)) (rows t)\<rparr>"
  proof (cases "c_date \<in> set (columns t)")
    case True
    have "setcol d9 c_date (to_datetime rt (getcol d9 c_date)) =
       \<lparr>columns = add_col c_date (columns d9),
        rows = upd_rows (\<lambda>r. r(c_date := to_datetime_cell rt (getcol d9 c_date) (r c_date))) (rows d9)\<rparr>"
      by (rule setcol_upd) (simp add: getcol_def to_datetime_def)
    then show ?thesis using True c5 [of c_date] hd
      by (simp add: d10_def e9 out_rows_def date_rows_def getcol_def Let_def)
  next
    case False
    then show ?thesis using hd by (simp add: d10_def e9 out_rows_def Let_def)
  qed
  have h1: "has_col t c_wind" using assms by (simp add: has_col_def)
  have h2: "has_col d2 c_weather" using assms by (simp add: has_col_def e2)
  have h3: "list_all (has_col d3) numeric4"
    using assms by (simp add: has_col_def e3 numeric4_def out_columns_def)
  show ?thesis unfolding unf using h1 h2 h3 e10 by simp
qed

lemma preprocess_data_KeyError:
  assumes "\<not> (c_wind \<in> set (columns t) \<and> c_weather \<in> set (columns t) \<and>
    c_max_temp \<in> set (columns t) \<and> c_min_temp \<in> set (columns t) \<and> c_aqi \<in> set (columns t))"
  shows "preprocess_data rt t = Inl KeyError"
proof -
  have "has_col (setcol (setcol t c_wind_speed u) c_wind_direction v) c_weather
      \<longleftrightarrow> c_weather \<in> set (columns t)" for u v
    by (simp add: has_col_def setcol_def)
  moreover have "list_all (has_col (setcol (setcol (setcol t c_wind_speed u) c_wind_direction v)
      c_weather_simple w)) numeric4
      \<longleftrightarrow> c_max_temp \<in> set (columns t) \<and> c_min_temp \<in> set (columns t) \<and> c_aqi \<in> set (columns t)"
    for u v w
    by (auto simp: has_col_def setcol_def numeric4_def)
  ultimately show ?thesis
    using assms unfolding preprocess_data_def Let_def by (auto simp: has_col_def)
qed

lemma preprocess_data_Inr_iff:
  "preprocess_data rt t = Inr out \<longleftrightarrow>
     (c_wind \<in> set (columns t) \<and> c_weather \<in> set (columns t) \<and> c_max_temp \<in> set (columns t)
      \<and> c_min_temp \<in> set (columns t) \<and> c_aqi \<in> set (columns t))
     \<and> out = \<lparr>columns = out_columns (columns t),
               rows = out_rows rt (c_date \<in> set (columns t)) (rows t)\<rparr>"
proof (cases "c_wind \<in> set (columns t) \<and> c_weather \<in> set (columns t) \<and>
    c_max_temp \<in> set (columns t) \<and> c_min_temp \<in> set (columns t) \<and> c_aqi \<in> set (columns t)")
  case True
  then show ?thesis using preprocess_data_rows [of t rt] by auto
next
  case False
  have "preprocess_data rt t \<noteq> Inr out"
    using preprocess_data_KeyError [OF False, of rt] by simp
  then show ?thesis using False by blast
qed

lemma to_numeric_cases: "to_numeric rt c = Missing \<or> is_num (to_numeric rt c)"
  by (simp add: to_numeric_def is_num_def split: cell.splits option.splits)

lemma to_numeric_num: "is_num c \<Longrightarrow> to_numeric rt c = c"
  by (simp add: to_numeric_def is_num_def split: cell.splits)

lemma is_num_not_missing: "is_num c \<Longrightarrow> c \<noteq> Missing"
  by (auto simp: is_num_def)

lemma extract_speed_cases:
  "fst (extract_wind_speed_and_direction rt w) = Missing
   \<or> is_num (fst (extract_wind_speed_and_direction rt w))"
  by (simp add: extract_wind_speed_and_direction_def is_num_def Let_def split: cell.splits)

lemma to_datetime_cell_cases: "is_date_or_missing (to_datetime_cell rt col c)"
  by (simp add: to_datetime_cell_def is_date_or_missing_def split: cell.splits option.splits)

lemma to_datetime_cell_fix: "is_date_or_missing c \<Longrightarrow> to_datetime_cell rt col c = c"
  by (simp add: to_datetime_cell_def is_date_or_missing_def split: cell.splits)

lemma present_fst [simp]: "present cs (i, r) = list_all (\<lambda>c. r c \<noteq> Missing) cs"
  by (simp add: present_def)

lemma coerced_clean:
  assumes p: "list_all (\<lambda>c. coerce_row rt (derive_row rt r) c \<noteq> Missing) numeric4"
  shows "clean_row rt False (coerce_row rt (derive_row rt r))"
proof -
  let ?E = "extract_wind_speed_and_direction rt"
  let ?r = "coerce_row rt (derive_row rt r)"
  have ws: "?r c_wind_speed = to_numeric rt (fst (?E (r c_wind)))"
    and mx: "?r c_max_temp = to_numeric rt (r c_max_temp)"
    and mn: "?r c_min_temp = to_numeric rt (r c_min_temp)"
    and aq: "?r c_aqi = to_numeric rt (r c_aqi)"
    and wd: "?r c_wind_direction = snd (?E (r c_wind))"
    and wsim: "?r c_weather_simple = weather_simple rt (r c_weather)"
    and wi: "?r c_wind = r c_wind" and we: "?r c_weather = r c_weather"
    by (simp_all add: coerce_row_def derive_row_def)
  have p4: "?r c_wind_speed \<noteq> Missing" "?r c_max_temp \<noteq> Missing"
    "?r c_min_temp \<noteq> Missing" "?r c_aqi \<noteq> Missing"
    using p by (simp_all add: numeric4_def)
  have n4: "is_num (?r c_wind_speed)" "is_num (?r c_max_temp)" "is_num (?r c_min_temp)"
    "is_num (?r c_aqi)"
    using p4(1) to_numeric_cases [of rt "fst (?E (r c_wind))"] apply (simp add: ws)
    using p4(2) to_numeric_cases [of rt "r c_max_temp"] apply (simp add: mx)
    using p4(3) to_numeric_cases [of rt "r c_min_temp"] apply (simp add: mn)
    using p4(4) to_numeric_cases [of rt "r c_aqi"] apply (simp add: aq)
    done
  have "fst (?E (r c_wind)) \<noteq> Missing"
    using n4(1) unfolding ws by (auto simp: to_numeric_def is_num_def)
  then have "is_num (fst (?E (r c_wind)))" using extract_speed_cases [of rt "r c_wind"] by simp
  then have ws': "?r c_wind_speed = fst (?E (?r c_wind))"
    unfolding ws wi by (rule to_numeric_num)
  have d: "derive_row rt ?r = ?r"
    unfolding derive_row_def [of rt ?r] using ws' wd wsim wi we by (simp add: fun_upd_idem)
  have c: "coerce_row rt ?r = ?r"
    unfolding coerce_row_def [of rt ?r] using n4 by (simp add: to_numeric_num fun_upd_idem)
  show ?thesis using d c n4 by (simp add: clean_row_def numeric4_def)
qed

lemma clean_row_date:
  assumes "clean_row rt False r" "is_date_or_missing d"
  shows "clean_row rt True (r(c_date := d))"
proof -
  have d: "derive_row rt (r(c_date := d)) = (derive_row rt r)(c_date := d)"
    by (simp add: derive_row_def fun_upd_twist [of c_date])
  have c: "coerce_row rt (r(c_date := d)) = (coerce_row rt r)(c_date := d)"
    by (simp add: coerce_row_def fun_upd_twist [of c_date])
  show ?thesis using assms unfolding clean_row_def d c by (simp add: numeric4_def)
qed

lemma clean_row_weaken: "clean_row rt True r \<Longrightarrow> clean_row rt b r"
  by (simp add: clean_row_def)

lemma in_upd_rows:
  "ir \<in> set (upd_rows f rs) \<longleftrightarrow> (\<exists>jr \<in> set rs. ir = (fst jr, f (snd jr)))"
  by (auto simp: upd_rows_def)

lemma out_rows_clean:
  assumes "ir \<in> set (out_rows rt dated rs)"
  shows "clean_row rt dated (snd ir)"
proof -
  let ?kept = "filter (present numeric4)
     (upd_rows (coerce_row rt) (filter (present numeric4) (upd_rows (derive_row rt) rs)))"
  have k: "clean_row rt False (snd jr)" if "jr \<in> set ?kept" for jr
  proof -
    from that obtain kr where kr: "jr = (fst kr, coerce_row rt (derive_row rt (snd kr)))"
      and p: "present numeric4 jr"
      unfolding set_filter in_upd_rows by auto
    show ?thesis using p coerced_clean [of rt "snd kr"] unfolding kr by simp
  qed
  show ?thesis
  proof (cases dated)
    case False
    then show ?thesis using assms k by (simp add: out_rows_def Let_def)
  next
    case True
    then have "ir \<in> set (date_rows rt ?kept)" using assms by (simp add: out_rows_def Let_def)
    then obtain jr where jr: "jr \<in> set ?kept"
      and ir: "snd ir = (snd jr)(c_date := to_datetime_cell rt (map (\<lambda>ir. snd ir c_date) ?kept) (snd jr c_date))"
      unfolding date_rows_def in_upd_rows by auto
    show ?thesis unfolding ir using True clean_row_date [OF k [OF jr] to_datetime_cell_cases] by simp
  qed
qed

lemma out_rows_fix:
  assumes "\<forall>ir \<in> set rs. clean_row rt dated (snd ir)"
  shows "out_rows rt dated rs = rs"
proof -
  have u1: "upd_rows (derive_row rt) rs = rs"
    unfolding upd_rows_def using assms by (intro map_idI) (simp add: clean_row_def)
  have p: "\<forall>ir \<in> set rs. present numeric4 ir"
    using assms by (auto simp: clean_row_def present_def list_all_iff is_num_not_missing)
  have f1: "filter (present numeric4) rs = rs" using p by simp
  have u2: "upd_rows (coerce_row rt) rs = rs"
    unfolding upd_rows_def using assms by (intro map_idI) (simp add: clean_row_def)
  have d: "date_rows rt rs = rs" if dated
    unfolding date_rows_def upd_rows_def using assms that
    by (intro map_idI) (simp add: clean_row_def to_datetime_cell_fix)
  show ?thesis unfolding out_rows_def Let_def u1 f1 u2 using d by simp
qed

lemma out_columns_idem: "out_columns (out_columns cs) = out_columns cs"
  by (simp add: out_columns_def add_col_def)

lemma set_out_columns:
  "set (out_columns cs) = set cs \<union> {c_wind_speed, c_wind_direction, c_weather_simple}"
  by (auto simp: out_columns_def)

lemma to_numeric_Missing [simp]: "to_numeric rt Missing = Missing"
  by (simp add: to_numeric_def)

lemma filter_upd_rows:
  "filter P (upd_rows f rs) = upd_rows f (filter (\<lambda>ir. P (fst ir, f (snd ir))) rs)"
  by (simp add: upd_rows_def filter_map comp_def)

lemma coerce_present:
  "list_all (\<lambda>c. coerce_row rt r c \<noteq> Missing) numeric4 \<Longrightarrow> list_all (\<lambda>c. r c \<noteq> Missing) numeric4"
  by (auto simp: coerce_row_def numeric4_def)

lemma out_rows_survivors:
  "out_rows rt dated rs =
     upd_rows (final_row rt dated (map (\<lambda>ir. snd ir c_date) (filter (survives rt) rs)))
       (filter (survives rt) rs)"
proof -
  have k: "filter (present numeric4)
     (upd_rows (coerce_row rt) (filter (present numeric4) (upd_rows (derive_row rt) rs)))
     = upd_rows (\<lambda>r. coerce_row rt (derive_row rt r)) (filter (survives rt) rs)"
  proof -
    have "(\<lambda>ir. list_all (\<lambda>c. derive_row rt (snd ir) c \<noteq> Missing) numeric4 \<and>
              list_all (\<lambda>c. coerce_row rt (derive_row rt (snd ir)) c \<noteq> Missing) numeric4)
          = survives rt"
      using coerce_present by (auto simp: survives_def fun_eq_iff)
    then show ?thesis
      by (simp add: filter_upd_rows upd_rows_comp)
  qed
  have c: "map (\<lambda>ir. snd ir c_date) (upd_rows (\<lambda>r. coerce_row rt (derive_row rt r)) xs)
      = map (\<lambda>ir. snd ir c_date) xs" for xs
    by (simp add: upd_rows_def comp_def coerce_row_def derive_row_def)
  show ?thesis
    unfolding out_rows_def Let_def k date_rows_def c upd_rows_comp
    by (simp add: final_row_def [abs_def] Let_def coerce_row_def derive_row_def)
qed

lemma final_row_other:
  "c \<notin> set [c_date, c_max_temp, c_min_temp, c_aqi, c_wind_speed, c_wind_direction,
      c_weather_simple] \<Longrightarrow> final_row rt dated col r c = r c"
  by (simp add: final_row_def Let_def coerce_row_def derive_row_def)

lemma final_row_numeric:
  "final_row rt dated col r c_max_temp = to_numeric rt (r c_max_temp)"
  "final_row rt dated col r c_min_temp = to_numeric rt (r c_min_temp)"
  "final_row rt dated col r c_aqi = to_numeric rt (r c_aqi)"
  by (simp_all add: final_row_def Let_def coerce_row_def derive_row_def)

lemma alloc_last: "(s @ [t]) ! length s = t"
  by simp

lemma assign_last: "assign (s @ [t]) (length s) c vs = s @ [setcol t c vs]"
  by (simp add: assign_def)

lemma preprocess_data_st_pure:
  "\<exists>ext. snd (preprocess_data_st rt s df) = s @ ext \<and>
     (case preprocess_data rt (s ! df) of
        Inl e \<Rightarrow> fst (preprocess_data_st rt s df) = Inl e
      | Inr out \<Rightarrow> fst (preprocess_data_st rt s df) = Inr (length s + 2) \<and>
                   ext = [ext ! 0, ext ! 1, out])"
proof -
  let ?t = "s ! df"
  let ?E = "extract_wind_speed_and_direction rt"
  define wi where "wi = map ?E (getcol ?t c_wind)"
  define d2 where "d2 = setcol (setcol ?t c_wind_speed (map fst wi)) c_wind_direction (map snd wi)"
  define d3 where "d3 = setcol d2 c_weather_simple (map (weather_simple rt) (getcol d2 c_weather))"
  define d4 where "d4 = dropna numeric4 d3"
  define d5 where "d5 = setcol d4 c_wind_speed (map (to_numeric rt) (getcol d4 c_wind_speed))"
  define d6 where "d6 = setcol d5 c_max_temp (map (to_numeric rt) (getcol d5 c_max_temp))"
  define d7 where "d7 = setcol d6 c_min_temp (map (to_numeric rt) (getcol d6 c_min_temp))"
  define d8 where "d8 = setcol d7 c_aqi (map (to_numeric rt) (getcol d7 c_aqi))"
  define d9 where "d9 = dropna numeric4 d8"
  define d10 where "d10 = (if has_col d9 c_date
     then setcol d9 c_date (to_datetime rt (getcol d9 c_date)) else d9)"
  have pure: "preprocess_data rt ?t =
     (if \<not> has_col ?t c_wind then Inl KeyError
      else if \<not> has_col d2 c_weather then Inl KeyError
      else if \<not> list_all (has_col d3) numeric4 then Inl KeyError
      else Inr d10)"
    unfolding preprocess_data_def Let_def d10_def d9_def d8_def d7_def d6_def d5_def d4_def
      d3_def d2_def wi_def by (rule refl)
  have a1: "alloc s ?t = (s @ [?t], length s)" by (simp add: alloc_def)
  have a2: "alloc (s @ [d3]) d4 = ((s @ [d3]) @ [d4], length (s @ [d3]))" by (simp add: alloc_def)
  have a3: "alloc ((s @ [d3]) @ [d8]) d9 = (((s @ [d3]) @ [d8]) @ [d9], length ((s @ [d3]) @ [d8]))"
    by (simp add: alloc_def)
  have st: "preprocess_data_st rt s df =
     (if \<not> has_col ?t c_wind then (Inl KeyError, s @ [?t])
      else if \<not> has_col d2 c_weather then (Inl KeyError, s @ [d2])
      else if \<not> list_all (has_col d3) numeric4 then (Inl KeyError, s @ [d3])
      else (Inr (length ((s @ [d3]) @ [d8])), ((s @ [d3]) @ [d8]) @ [d10]))"
    unfolding preprocess_data_st_def Let_def a1 prod.case alloc_last assign_last
      wi_def [symmetric] d2_def [symmetric] d3_def [symmetric] d4_def [symmetric] a2
      d5_def [symmetric] d6_def [symmetric] d7_def [symmetric] d8_def [symmetric]
      d9_def [symmetric] a3
    by (simp add: d10_def assign_last if_distrib [of "\<lambda>x. s @ [d3] @ x"] del: append_assoc
        cong: if_cong)
  show ?thesis unfolding pure st by auto
qed

lemma rt0_simps [simp]:
  "decimal rt0 c = (if 48 \<le> c \<and> c \<le> 57 then Some (c - 48) else None)"
  "whitespace rt0 c = (c = 32)"
  "str_to_num rt0 s = None" "date_to_num rt0 d = None" "parse_datetime rt0 col x = None"
  by (simp_all add: rt0_def)

lemma extract_north1 [simp]:
  "extract_wind_speed_and_direction rt0 (Str [21271, 39118, 49, 32423]) = (Num 1, Str [21271, 39118])"
  by (simp add: extract_wind_speed_and_direction_def is_digit_def strip_def int_of_digits_def
      digit_value_def)

lemma sample_row_apply [simp]:
  "sample_row d w a c_date = d" "sample_row d w a c_max_temp = Num 30"
  "sample_row d w a c_min_temp = Num 20" "sample_row d w a c_weather = w"
  "sample_row d w a c_wind = Str [21271, 39118, 49, 32423]" "sample_row d w a c_aqi = a"
  by (simp_all add: sample_row_def)

lemma sample_survives:
  "survives rt0 (i, sample_row d w a) \<longleftrightarrow> to_numeric rt0 a \<noteq> Missing"
  by (simp add: survives_def numeric4_def coerce_row_def derive_row_def to_numeric_def)

lemma sample_pre:
  "\<exists>out. preprocess_data rt0 sample_table = Inr out \<and> map fst (rows out) = [0, 2]
     \<and> getcol out c_date = [Date 3, Missing] \<and> getcol out c_wind_speed = [Num 1, Num 1]
     \<and> getcol out c_aqi = [Num 80, Num 7]"
  by (simp add: preprocess_data_Inr_iff sample_table_def out_rows_survivors sample_survives
      to_numeric_def upd_rows_def getcol_def final_row_def coerce_row_def derive_row_def
      to_datetime_cell_def)

text \<open>
  Claim C6: preprocessing is idempotent. Whenever \<open>preprocess_data\<close> returns a table,
  applying it to that table returns the same table again: the same column list, the same
  rows in the same order with the same index labels, and every cell, the re-derived
  \<open>wind_speed\<close>, \<open>wind_direction\<close>, \<open>weather_simple\<close> and the parsed \<open>date\<close>
  included, unchanged (cells compared as values; pandas dtypes are not part of the model).
\<close>

theorem preprocess_data_idempotent:
  assumes "preprocess_data rt df = Inr out"
  shows "preprocess_data rt out = Inr out"
proof -
  let ?dated = "c_date \<in> set (columns df)"
  from assms have cols: "c_wind \<in> set (columns df)" "c_weather \<in> set (columns df)"
    "c_max_temp \<in> set (columns df)" "c_min_temp \<in> set (columns df)" "c_aqi \<in> set (columns df)"
    and out: "out = \<lparr>columns = out_columns (columns df), rows = out_rows rt ?dated (rows df)\<rparr>"
    unfolding preprocess_data_Inr_iff by simp_all
  have d: "(c_date \<in> set (columns out)) = ?dated"
    by (simp add: out set_out_columns)
  have "preprocess_data rt out =
     Inr \<lparr>columns = out_columns (columns out), rows = out_rows rt ?dated (rows out)\<rparr>"
    using preprocess_data_rows [of out rt] cols unfolding d by (simp add: out set_out_columns)
  moreover have "out_columns (columns out) = columns out"
    by (simp add: out out_columns_idem)
  moreover have "out_rows rt ?dated (rows out) = rows out"
    by (rule out_rows_fix) (simp add: out out_rows_clean)
  ultimately show ?thesis by simp
qed

theorem preprocess_data_idempotent_witness:
  "\<exists>out. preprocess_data rt0 sample_table = Inr out \<and> map fst (rows out) = [0, 2]
     \<and> getcol out c_wind_speed = [Num 1, Num 1] \<and> preprocess_data rt0 out = Inr out"
proof -
  obtain out where o: "preprocess_data rt0 sample_table = Inr out"
    and r: "map fst (rows out) = [0, 2]" "getcol out c_wind_speed = [Num 1, Num 1]"
    using sample_pre by auto
  show ?thesis
    by (rule exI [of _ out]) (simp add: o r preprocess_data_idempotent [OF o])
qed

lemma preprocess_data_numeric:
  assumes "preprocess_data rt df = Inr out" "ir \<in> set (rows out)"
  shows "list_all (\<lambda>c. is_num (snd ir c)) numeric4"
proof -
  have "clean_row rt (c_date \<in> set (columns df)) (snd ir)"
    using assms out_rows_clean unfolding preprocess_data_Inr_iff by simp
  then show ?thesis by (simp add: clean_row_def)
qed

lemma preprocess_data_order:
  assumes "preprocess_data rt df = Inr out"
  shows "\<exists>kept f. subseq kept (rows df) \<and> rows out = upd_rows f kept \<and>
     (\<forall>r c. c \<notin> set [c_date, c_max_temp, c_min_temp, c_aqi, c_wind_speed, c_wind_direction,
        c_weather_simple] \<longrightarrow> f r c = r c)"
proof -
  let ?kept = "filter (survives rt) (rows df)"
  let ?f = "final_row rt (c_date \<in> set (columns df)) (map (\<lambda>ir. snd ir c_date) ?kept)"
  have "rows out = upd_rows ?f ?kept"
    using assms unfolding preprocess_data_Inr_iff by (simp add: out_rows_survivors)
  moreover have "subseq ?kept (rows df)" by simp
  moreover have "\<forall>r c. c \<notin> set [c_date, c_max_temp, c_min_temp, c_aqi, c_wind_speed,
      c_wind_direction, c_weather_simple] \<longrightarrow> ?f r c = r c"
    using final_row_other by blast
  ultimately show ?thesis by blast
qed

text \<open>
  Claim C5: the table \<open>preprocess_data\<close> returns has a number, hence no missing value,
  in each of \<open>max_temp\<close>, \<open>min_temp\<close>, \<open>wind_speed\<close> and \<open>aqi\<close>; its rows are a
  subsequence of the input's rows, in the input's order, with the cells of the other input
  columns untouched; and the call leaves every table that existed before it, the caller's
  among them, as it was, because it works on a copy. With the five columns it reads
  present the call returns a table; otherwise it raises \<open>KeyError\<close>, the caller's table
  still unchanged.
\<close>

theorem preprocess_data_guarantee:
  assumes "preprocess_data_st rt s df = (res, s')"
  shows "take (length s) s' = s
    \<and> (df < length s \<longrightarrow> s' ! df = s ! df)
    \<and> (case res of
          Inl e \<Rightarrow> preprocess_data rt (s ! df) = Inl e
        | Inr a \<Rightarrow> length s \<le> a \<and> a < length s'
            \<and> preprocess_data rt (s ! df) = Inr (s' ! a)
            \<and> (\<forall>ir \<in> set (rows (s' ! a)). list_all (\<lambda>c. is_num (snd ir c)) numeric4)
            \<and> (\<forall>ir \<in> set (rows (s' ! a)). list_all (\<lambda>c. snd ir c \<noteq> Missing) numeric4)
            \<and> (\<exists>kept f. subseq kept (rows (s ! df)) \<and> rows (s' ! a) = upd_rows f kept \<and>
                 (\<forall>r c. c \<notin> set [c_date, c_max_temp, c_min_temp, c_aqi, c_wind_speed,
                    c_wind_direction, c_weather_simple] \<longrightarrow> f r c = r c)))
    \<and> (c_wind \<in> set (columns (s ! df)) \<and> c_weather \<in> set (columns (s ! df))
         \<and> c_max_temp \<in> set (columns (s ! df)) \<and> c_min_temp \<in> set (columns (s ! df))
         \<and> c_aqi \<in> set (columns (s ! df)) \<longrightarrow> (\<exists>a. res = Inr a))"
proof -
  from preprocess_data_st_pure [of rt s df] obtain ext where
    e: "snd (preprocess_data_st rt s df) = s @ ext" and
    c0: "case preprocess_data rt (s ! df) of
        Inl e \<Rightarrow> fst (preprocess_data_st rt s df) = Inl e
      | Inr out \<Rightarrow> fst (preprocess_data_st rt s df) = Inr (length s + 2) \<and>
                   ext = [ext ! 0, ext ! 1, out]"
    by blast
  have ext: "s' = s @ ext" using e by (simp add: assms)
  have c: "case preprocess_data rt (s ! df) of
        Inl e \<Rightarrow> res = Inl e
      | Inr out \<Rightarrow> res = Inr (length s + 2) \<and> ext = [ext ! 0, ext ! 1, out]"
    using c0 unfolding assms fst_conv .
  have p1: "take (length s) s' = s" by (simp add: ext)
  have p2: "df < length s \<longrightarrow> s' ! df = s ! df" by (simp add: ext nth_append)
  have p3: "case res of
          Inl e \<Rightarrow> preprocess_data rt (s ! df) = Inl e
        | Inr a \<Rightarrow> length s \<le> a \<and> a < length s'
            \<and> preprocess_data rt (s ! df) = Inr (s' ! a)
            \<and> (\<forall>ir \<in> set (rows (s' ! a)). list_all (\<lambda>c. is_num (snd ir c)) numeric4)
            \<and> (\<forall>ir \<in> set (rows (s' ! a)). list_all (\<lambda>c. snd ir c \<noteq> Missing) numeric4)
            \<and> (\<exists>kept f. subseq kept (rows (s ! df)) \<and> rows (s' ! a) = upd_rows f kept \<and>
                 (\<forall>r c. c \<notin> set [c_date, c_max_temp, c_min_temp, c_aqi, c_wind_speed,
                    c_wind_direction, c_weather_simple] \<longrightarrow> f r c = r c))"
  proof (cases "preprocess_data rt (s ! df)")
    case (Inl e)
    then show ?thesis using c by simp
  next
    case (Inr out)
    then have res: "res = Inr (length s + 2)" and e3: "ext = [ext ! 0, ext ! 1, out]"
      using c by simp_all
    have "length ext = 3" using e3 by (metis length_Cons list.size(3) numeral_3_eq_3)
    then have len: "length s' = length s + 3" by (simp add: ext)
    have "s' ! (length s + 2) = ext ! 2" by (simp add: ext nth_append)
    also have "\<dots> = out" using e3 by (metis nth_Cons_0 nth_Cons_Suc numeral_2_eq_2)
    finally have at: "s' ! (length s + 2) = out" .
    have n: "\<forall>ir \<in> set (rows out). list_all (\<lambda>c. is_num (snd ir c)) numeric4"
      using preprocess_data_numeric [OF Inr] by blast
    then have m: "\<forall>ir \<in> set (rows out). list_all (\<lambda>c. snd ir c \<noteq> Missing) numeric4"
      by (auto simp: list_all_iff is_num_not_missing)
    show ?thesis unfolding res sum.case at
      using len Inr n m preprocess_data_order [OF Inr] by simp
  qed
  have p4: "c_wind \<in> set (columns (s ! df)) \<and> c_weather \<in> set (columns (s ! df))
         \<and> c_max_temp \<in> set (columns (s ! df)) \<and> c_min_temp \<in> set (columns (s ! df))
         \<and> c_aqi \<in> set (columns (s ! df)) \<longrightarrow> (\<exists>a. res = Inr a)"
  proof
    assume "c_wind \<in> set (columns (s ! df)) \<and> c_weather \<in> set (columns (s ! df))
         \<and> c_max_temp \<in> set (columns (s ! df)) \<and> c_min_temp \<in> set (columns (s ! df))
         \<and> c_aqi \<in> set (columns (s ! df))"
    then obtain out where "preprocess_data rt (s ! df) = Inr out"
      using preprocess_data_rows [of "s ! df" rt] by blast
    then show "\<exists>a. res = Inr a" using c by simp
  qed
  show ?thesis using p1 p2 p3 p4 by blast
qed

lemma sample_pre2:
  "preprocess_data rt0 sample_table = Inr out \<Longrightarrow>
     map fst (rows out) = [0, 2] \<and> getcol out c_aqi = [Num 80, Num 7]"
  using sample_pre by auto

theorem preprocess_data_guarantee_witness:
  "\<exists>a s'. preprocess_data_st rt0 [sample_table] 0 = (Inr a, s') \<and> s' ! 0 = sample_table
     \<and> a \<noteq> 0 \<and> map fst (rows (s' ! a)) = [0, 2]
     \<and> getcol (s' ! a) c_aqi = [Num 80, Num 7]"
proof -
  obtain res s' where st: "preprocess_data_st rt0 [sample_table] 0 = (res, s')"
    by (cases "preprocess_data_st rt0 [sample_table] 0") blast
  note g = preprocess_data_guarantee [OF st]
  have cols: "c_wind \<in> set (columns ([sample_table] ! 0)) \<and> c_weather \<in> set (columns ([sample_table] ! 0))
         \<and> c_max_temp \<in> set (columns ([sample_table] ! 0)) \<and> c_min_temp \<in> set (columns ([sample_table] ! 0))
         \<and> c_aqi \<in> set (columns ([sample_table] ! 0))"
    by (simp add: sample_table_def)
  from g cols obtain a where a: "res = Inr a" by blast
  from g have same: "s' ! 0 = sample_table" by simp
  from g have fresh: "length [sample_table] \<le> a"
    and out: "preprocess_data rt0 ([sample_table] ! 0) = Inr (s' ! a)"
    unfolding a by simp_all
  have "map fst (rows (s' ! a)) = [0, 2] \<and> getcol (s' ! a) c_aqi = [Num 80, Num 7]"
    using sample_pre2 out by simp
  then show ?thesis using st a same fresh by auto
qed

lemma get_dummies_rows:
  "get_dummies df specs = Inr enc \<Longrightarrow> length (rows enc) = length (rows df)"
  by (auto simp: get_dummies_def Let_def split: if_splits)

lemma select_columns_rows:
  "select_columns df cs = Inr X \<Longrightarrow> rows X = rows df"
  by (auto simp: select_columns_def split: if_splits)

lemma msg_differ: "msg_insufficient \<noteq> msg_too_few"
  by (simp add: msg_insufficient_def msg_too_few_def)

lemma get_dummies_total:
  assumes "list_all (\<lambda>cp. fst cp \<in> set (columns df)) specs"
  shows "\<exists>enc. get_dummies df specs = Inr enc \<and> length (rows enc) = length (rows df)"
  using assms by (simp add: get_dummies_def has_col_def Let_def)

lemma has_out_columns:
  assumes "preprocess_data rt df = Inr p"
  shows "set (columns p) = set (columns df) \<union> {c_wind_speed, c_wind_direction, c_weather_simple}"
    and "c_wind \<in> set (columns p)" "c_weather \<in> set (columns p)" "c_max_temp \<in> set (columns p)"
    "c_min_temp \<in> set (columns p)" "c_aqi \<in> set (columns p)"
  using assms unfolding preprocess_data_Inr_iff by (simp_all add: set_out_columns)

lemma preprocessed_dummies:
  assumes "preprocess_data rt df = Inr p"
  shows "\<exists>enc. get_dummies p
      [(c_weather_simple, ascii ''weather''), (c_wind_direction, ascii ''wind_dir'')] = Inr enc
      \<and> length (rows enc) = length (rows p)"
  by (rule get_dummies_total) (simp add: has_out_columns(1) [OF assms])

lemma daily_survivors: "filter (survives rt0) (rows (daily_table n w)) = rows (daily_table n w)"
  by (simp add: daily_table_def sample_survives to_numeric_def)

lemma daily_pre:
  "preprocess_data rt0 (daily_table n w) =
     Inr \<lparr>columns = out_columns (columns (daily_table n w)),
          rows = upd_rows (final_row rt0 True (map (\<lambda>ir. snd ir c_date) (rows (daily_table n w))))
                   (rows (daily_table n w))\<rparr>"
  unfolding preprocess_data_Inr_iff out_rows_survivors daily_survivors
  by (simp add: daily_table_def)

lemma daily_pre_length:
  "preprocess_data rt0 (daily_table n w) = Inr p \<Longrightarrow> length (rows p) = n"
  unfolding daily_pre by (auto simp: upd_rows_def daily_table_def)

text \<open>
  Claim C7: when fewer than 30 rows remain after preprocessing, and likewise when fewer
  than 30 rows remain after the one-hot encoding of the preprocessed table,
  \<open>train_aqi_prediction_model\<close> returns the error dictionary with the insufficient-data
  message, raises nothing and fits no model.
\<close>

theorem train_insufficient_data:
  assumes "preprocess_data rt df = Inr df_processed"
  shows "(length (rows df_processed) < 30 \<longrightarrow>
            train_aqi_prediction_model rt fit df
              = \<lparr>returned = Inr (ErrorDict msg_insufficient), fit_calls = 0\<rparr>)
    \<and> (\<forall>df_encoded.
          get_dummies df_processed
            [(c_weather_simple, ascii ''weather''), (c_wind_direction, ascii ''wind_dir'')]
            = Inr df_encoded \<and> length (rows df_encoded) < 30 \<longrightarrow>
            train_aqi_prediction_model rt fit df
              = \<lparr>returned = Inr (ErrorDict msg_insufficient), fit_calls = 0\<rparr>)"
proof -
  have 1: "length (rows df_processed) < 30 \<Longrightarrow>
            train_aqi_prediction_model rt fit df
              = \<lparr>returned = Inr (ErrorDict msg_insufficient), fit_calls = 0\<rparr>"
    unfolding train_aqi_prediction_model_def assms sum.case by (simp only: if_True)
  have 2: "length (rows df_processed) < 30"
    if "get_dummies df_processed
            [(c_weather_simple, ascii ''weather''), (c_wind_direction, ascii ''wind_dir'')]
            = Inr df_encoded" "length (rows df_encoded) < 30" for df_encoded
    using that get_dummies_rows by metis
  show ?thesis using 1 2 by blast
qed

theorem train_insufficient_data_witness:
  "\<exists>p enc. preprocess_data rt0 sample_table = Inr p \<and> length (rows p) = 2
     \<and> get_dummies p [(c_weather_simple, ascii ''weather''), (c_wind_direction, ascii ''wind_dir'')]
          = Inr enc
     \<and> length (rows enc) = 2
     \<and> train_aqi_prediction_model rt0 sample_fit sample_table
          = \<lparr>returned = Inr (ErrorDict msg_insufficient), fit_calls = 0\<rparr>"
proof -
  obtain p where p: "preprocess_data rt0 sample_table = Inr p" and i: "map fst (rows p) = [0, 2]"
    using sample_pre by auto
  have l: "length (rows p) = 2" using i by (metis length_map length_Cons list.size(3) numeral_2_eq_2)
  obtain enc where enc: "get_dummies p
      [(c_weather_simple, ascii ''weather''), (c_wind_direction, ascii ''wind_dir'')] = Inr enc"
    and le: "length (rows enc) = length (rows p)"
    using preprocessed_dummies [OF p] by blast
  have "train_aqi_prediction_model rt0 sample_fit sample_table
          = \<lparr>returned = Inr (ErrorDict msg_insufficient), fit_calls = 0\<rparr>"
    using train_insufficient_data [OF p, of sample_fit] l by simp
  then show ?thesis using p l enc le by auto
qed

text \<open>
  Claim C10: the second insufficient-data branch of \<open>train_aqi_prediction_model\<close> is
  dead. \<open>get_dummies\<close> and the column selection keep every row, so once the first guard
  has passed the feature matrix has at least 30 rows; whatever the input and the fitting
  routine, the call never returns the second branch's message.
\<close>

theorem second_guard_unreachable:
  "returned (train_aqi_prediction_model rt fit df) \<noteq> Inr (ErrorDict msg_too_few)
   \<and> (\<forall>p enc X cs.
         preprocess_data rt df = Inr p \<and> \<not> length (rows p) < 30
         \<and> get_dummies p [(c_weather_simple, ascii ''weather''), (c_wind_direction, ascii ''wind_dir'')]
             = Inr enc
         \<and> select_columns enc cs = Inr X
         \<longrightarrow> length (rows enc) = length (rows p) \<and> \<not> length (rows X) < 30)"
proof -
  have a: "\<forall>p enc X cs.
         preprocess_data rt df = Inr p \<and> \<not> length (rows p) < 30
         \<and> get_dummies p [(c_weather_simple, ascii ''weather''), (c_wind_direction, ascii ''wind_dir'')]
             = Inr enc
         \<and> select_columns enc cs = Inr X
         \<longrightarrow> length (rows enc) = length (rows p) \<and> \<not> length (rows X) < 30"
  proof (intro allI impI, elim conjE)
    fix p enc X cs
    assume big: "\<not> length (rows p) < 30"
      and enc: "get_dummies p [(c_weather_simple, ascii ''weather''), (c_wind_direction, ascii ''wind_dir'')] = Inr enc"
      and X: "select_columns enc cs = Inr X"
    show "length (rows enc) = length (rows p) \<and> \<not> length (rows X) < 30"
      using big get_dummies_rows [OF enc] select_columns_rows [OF X] by simp
  qed
  have b: "returned (train_aqi_prediction_model rt fit df) \<noteq> Inr (ErrorDict msg_too_few)"
  proof (cases "preprocess_data rt df")
    case (Inl e)
    then show ?thesis by (simp add: train_aqi_prediction_model_def)
  next
    case p: (Inr p)
    show ?thesis
    proof (cases "length (rows p) < 30")
      case True
      then show ?thesis using p msg_differ by (simp add: train_aqi_prediction_model_def)
    next
      case big: False
      let ?specs = "[(c_weather_simple, ascii ''weather''), (c_wind_direction, ascii ''wind_dir'')]"
      show ?thesis
      proof (cases "get_dummies p ?specs")
        case (Inl e)
        then show ?thesis using p big by (simp add: train_aqi_prediction_model_def)
      next
        case enc: (Inr enc)
        let ?features = "[c_max_temp, c_min_temp, c_wind_speed] @
           filter (\<lambda>c. prefix (ascii ''weather_'') c \<or> prefix (ascii ''wind_dir_'') c) (columns enc)"
        have t: "train_aqi_prediction_model rt fit df =
          (case select_columns enc ?features of
             Inl e \<Rightarrow> \<lparr>returned = Inl e, fit_calls = 0\<rparr>
           | Inr X \<Rightarrow>
               if \<not> has_col enc c_aqi then \<lparr>returned = Inl KeyError, fit_calls = 0\<rparr>
               else if length (rows X) < 30
                    then \<lparr>returned = Inr (ErrorDict msg_too_few), fit_calls = 0\<rparr>
                    else \<lparr>returned = map_sum id Payload (fit X (getcol enc c_aqi)), fit_calls = 1\<rparr>)"
          unfolding train_aqi_prediction_model_def p enc sum.case Let_def using big
          by (simp only: if_False)
        show ?thesis
        proof (cases "select_columns enc ?features")
          case (Inl e)
          then show ?thesis unfolding t by simp
        next
          case (Inr X)
          have "\<not> length (rows X) < 30"
            using big get_dummies_rows [OF enc] select_columns_rows [OF Inr] by simp
          then show ?thesis unfolding t Inr sum.case
            by (cases "fit X (getcol enc c_aqi)") simp_all
        qed
      qed
    qed
  qed
  show ?thesis using a b by blast
qed

theorem second_guard_unreachable_witness:
  "\<exists>p enc X. preprocess_data rt0 (daily_table 37 (Str [22810, 20113])) = Inr p
     \<and> length (rows p) = 37
     \<and> get_dummies p [(c_weather_simple, ascii ''weather''), (c_wind_direction, ascii ''wind_dir'')]
          = Inr enc
     \<and> select_columns enc [c_max_temp, c_min_temp, c_wind_speed] = Inr X
     \<and> length (rows enc) = 37 \<and> length (rows X) = 37
     \<and> returned (train_aqi_prediction_model rt0 sample_fit (daily_table 37 (Str [22810, 20113])))
          \<noteq> Inr (ErrorDict msg_too_few)"
proof -
  let ?df = "daily_table 37 (Str [22810, 20113])"
  let ?specs = "[(c_weather_simple, ascii ''weather''), (c_wind_direction, ascii ''wind_dir'')]"
  obtain p where p: "preprocess_data rt0 ?df = Inr p" using daily_pre by blast
  have l: "length (rows p) = 37" using daily_pre_length [OF p] .
  obtain enc where enc: "get_dummies p ?specs = Inr enc"
    using preprocessed_dummies [OF p] by blast
  have c: "set (columns enc) \<supseteq> {c_max_temp, c_min_temp, c_wind_speed}"
    using enc has_out_columns [OF p]
    by (auto simp: get_dummies_def Let_def split: if_splits)
  then obtain X where X: "select_columns enc [c_max_temp, c_min_temp, c_wind_speed] = Inr X"
    by (simp add: select_columns_def has_col_def)
  note g = second_guard_unreachable [of rt0 sample_fit ?df]
  have nb: "\<not> length (rows p) < 30" using l by simp
  from g p nb enc X have "length (rows enc) = length (rows p) \<and> \<not> length (rows X) < 30"
    by blast
  then have le: "length (rows enc) = 37" using l by simp
  have lx: "length (rows X) = 37" using select_columns_rows [OF X] le by simp
  have r: "returned (train_aqi_prediction_model rt0 sample_fit ?df) \<noteq> Inr (ErrorDict msg_too_few)"
    using g by (rule conjunct1)
  show ?thesis
    apply (rule exI [of _ p], rule exI [of _ enc], rule exI [of _ X])
    apply (intro conjI p l enc X le lx r)
    done
qed

declare str_nat.simps [simp del]

lemma str_nat_nonempty: "str_nat n \<noteq> []"
  by (subst str_nat.simps) simp

lemma str_nat_inj: "str_nat n = str_nat m \<Longrightarrow> n = m"
proof (induction n arbitrary: m rule: str_nat.induct)
  case (1 n)
  show ?case
  proof (cases "n < 10")
    case n: True
    then have sn: "str_nat n = [48 + n]" by (subst str_nat.simps) simp
    show ?thesis
    proof (cases "m < 10")
      case True
      then have "str_nat m = [48 + m]" by (subst str_nat.simps) simp
      then show ?thesis using sn "1.prems" by simp
    next
      case False
      then have "str_nat m = str_nat (m div 10) @ [48 + m mod 10]"
        by (subst str_nat.simps) simp
      then have "length (str_nat m) \<noteq> 1" using str_nat_nonempty [of "m div 10"] by simp
      then show ?thesis using sn "1.prems" by simp
    qed
  next
    case n: False
    then have sn: "str_nat n = str_nat (n div 10) @ [48 + n mod 10]"
      by (subst str_nat.simps) simp
    show ?thesis
    proof (cases "m < 10")
      case True
      then have "str_nat m = [48 + m]" by (subst str_nat.simps) simp
      moreover have "length (str_nat n) \<noteq> 1"
        using sn str_nat_nonempty [of "n div 10"] by simp
      ultimately show ?thesis using "1.prems" by simp
    next
      case False
      then have sm: "str_nat m = str_nat (m div 10) @ [48 + m mod 10]"
        by (subst str_nat.simps) simp
      from "1.prems" sn sm have e: "str_nat (n div 10) = str_nat (m div 10)"
        and l: "n mod 10 = m mod 10" by simp_all
      have "n div 10 = m div 10" using "1.IH" [OF n e] .
      then show ?thesis using l by (metis div_mult_mod_eq)
    qed
  qed
qed

lemma lag_col_inj [simp]: "lag_col i = lag_col j \<longleftrightarrow> i = j"
  using str_nat_inj by (auto simp: lag_col_def)

lemma lag_col_neq [simp]:
  "lag_col i \<noteq> c_aqi" "lag_col i \<noteq> c_date" "lag_col i \<noteq> c_dow" "lag_col i \<noteq> c_month"
  "lag_col i \<noteq> c_aqi_next" "lag_col i \<noteq> c_max_temp" "lag_col i \<noteq> c_min_temp"
  "lag_col i \<noteq> c_wind_speed"
  "c_aqi \<noteq> lag_col i" "c_date \<noteq> lag_col i" "c_dow \<noteq> lag_col i" "c_month \<noteq> lag_col i"
  "c_aqi_next \<noteq> lag_col i" "c_max_temp \<noteq> lag_col i" "c_min_temp \<noteq> lag_col i"
  "c_wind_speed \<noteq> lag_col i"
  by (simp_all add: lag_col_def col_defs ascii_def)

lemma rows_setcol:
  assumes "length vs = length (rows d)"
  shows "rows (setcol d c vs) =
     map (\<lambda>j. (fst (rows d ! j), (snd (rows d ! j))(c := vs ! j))) [0..<length (rows d)]"
  using assms by (auto simp: setcol_def intro!: nth_equalityI)

lemma shift_length [simp]: "length (shift i xs) = length xs"
  by (simp add: shift_def)

lemma shift_back_length [simp]: "length (shift_back xs) = length xs"
  by (cases xs) (simp_all add: shift_back_def)

lemma shift_nth:
  "j < length xs \<Longrightarrow> shift i xs ! j = (if j < i then Missing else xs ! (j - i))"
  by (auto simp: shift_def nth_append min_def)

lemma shift_back_nth:
  "j < length xs \<Longrightarrow> shift_back xs ! j = (if j + 1 < length xs then xs ! (j + 1) else Missing)"
  by (auto simp: shift_back_def nth_append min_def)

lemma getcol_length [simp]: "length (getcol d c) = length (rows d)"
  by (simp add: getcol_def)

lemma getcol_nth: "j < length (rows d) \<Longrightarrow> getcol d c ! j = snd (rows d ! j) c"
  by (simp add: getcol_def)

lemma add_lags_Suc:
  "add_lags S (Suc k) =
     setcol (add_lags S k) (lag_col (Suc k)) (shift (Suc k) (getcol (add_lags S k) c_aqi))"
  by (simp add: add_lags_def)

lemma setcol_length [simp]:
  "length vs = length (rows d) \<Longrightarrow> length (rows (setcol d c vs)) = length (rows d)"
  by (simp add: rows_setcol)

lemma setcol_nth:
  "length vs = length (rows d) \<Longrightarrow> j < length (rows d) \<Longrightarrow>
     rows (setcol d c vs) ! j = (fst (rows d ! j), (snd (rows d ! j))(c := vs ! j))"
  by (simp add: rows_setcol)

lemma setcol_columns [simp]: "set (columns (setcol d c vs)) = insert c (set (columns d))"
  by (auto simp: setcol_def)

lemma add_lags_props:
  "length (rows (add_lags S k)) = length (rows S)
   \<and> set (columns (add_lags S k)) = set (columns S) \<union> lag_col ` {1..k}
   \<and> (\<forall>j < length (rows S).
        fst (rows (add_lags S k) ! j) = fst (rows S ! j)
        \<and> (\<forall>i. 1 \<le> i \<and> i \<le> k \<longrightarrow>
              snd (rows (add_lags S k) ! j) (lag_col i) = shift i (getcol S c_aqi) ! j)
        \<and> (\<forall>c. c \<notin> lag_col ` {1..k} \<longrightarrow>
              snd (rows (add_lags S k) ! j) c = snd (rows S ! j) c))"
proof (induction k)
  case 0
  show ?case by (simp add: add_lags_def)
next
  case (Suc k)
  let ?T = "add_lags S k"
  from Suc have len: "length (rows ?T) = length (rows S)"
    and cols: "set (columns ?T) = set (columns S) \<union> lag_col ` {1..k}"
    and fst: "\<And>j. j < length (rows S) \<Longrightarrow> fst (rows ?T ! j) = fst (rows S ! j)"
    and lag: "\<And>j i. j < length (rows S) \<Longrightarrow> 1 \<le> i \<Longrightarrow> i \<le> k \<Longrightarrow>
        snd (rows ?T ! j) (lag_col i) = shift i (getcol S c_aqi) ! j"
    and other: "\<And>j c. j < length (rows S) \<Longrightarrow> c \<notin> lag_col ` {1..k} \<Longrightarrow>
        snd (rows ?T ! j) c = snd (rows S ! j) c"
    by simp_all
  have aq: "getcol ?T c_aqi = getcol S c_aqi"
  proof (rule nth_equalityI)
    show "length (getcol ?T c_aqi) = length (getcol S c_aqi)" by (simp add: len)
  next
    fix j assume "j < length (getcol ?T c_aqi)"
    then have j: "j < length (rows S)" by (simp add: len)
    have "c_aqi \<notin> lag_col ` {1..k}" by auto
    then show "getcol ?T c_aqi ! j = getcol S c_aqi ! j"
      using other [OF j] j by (simp add: getcol_nth len)
  qed
  let ?vs = "shift (Suc k) (getcol S c_aqi)"
  have lv: "length ?vs = length (rows ?T)" by (simp add: len)
  have T': "add_lags S (Suc k) = setcol ?T (lag_col (Suc k)) ?vs"
    by (simp add: add_lags_Suc aq)
  have r: "rows (add_lags S (Suc k)) ! j
      = (fst (rows ?T ! j), (snd (rows ?T ! j))(lag_col (Suc k) := ?vs ! j))"
    if "j < length (rows S)" for j
    unfolding T' using setcol_nth [OF lv] that len by simp
  have 1: "length (rows (add_lags S (Suc k))) = length (rows S)"
    unfolding T' using lv len by simp
  have 2: "set (columns (add_lags S (Suc k))) = set (columns S) \<union> lag_col ` {1..Suc k}"
    unfolding T' by (auto simp: cols atLeastAtMostSuc_conv)
  have 3: "fst (rows (add_lags S (Suc k)) ! j) = fst (rows S ! j)"
    if "j < length (rows S)" for j
    using r [OF that] fst [OF that] by simp
  have 4: "snd (rows (add_lags S (Suc k)) ! j) (lag_col i) = shift i (getcol S c_aqi) ! j"
    if "j < length (rows S)" "1 \<le> i" "i \<le> Suc k" for j i
  proof (cases "i = Suc k")
    case True
    then show ?thesis using r [OF that(1)] by simp
  next
    case False
    then have "i \<le> k" using that by simp
    then show ?thesis using r [OF that(1)] lag [OF that(1) that(2)] False by simp
  qed
  have 5: "snd (rows (add_lags S (Suc k)) ! j) c = snd (rows S ! j) c"
    if "j < length (rows S)" "c \<notin> lag_col ` {1..Suc k}" for j c
  proof -
    have "c \<noteq> lag_col (Suc k)" and "c \<notin> lag_col ` {1..k}" using that(2) by auto
    then show ?thesis using r [OF that(1)] other [OF that(1)] by simp
  qed
  show ?case using 1 2 3 4 5 by blast
qed

lemma sort_values_date_length [simp]:
  "length (rows (sort_values_date df)) = length (rows df)"
proof -
  have "length (filter (\<lambda>ir. snd ir c_date \<noteq> Missing) (rows df))
      + length (filter (\<lambda>ir. snd ir c_date = Missing) (rows df)) = length (rows df)"
    using sum_length_filter_compl [of "\<lambda>ir. snd ir c_date \<noteq> Missing" "rows df"] by simp
  then show ?thesis by (simp add: sort_values_date_def)
qed

lemma sort_values_date_set [simp]: "set (rows (sort_values_date df)) = set (rows df)"
  by (auto simp: sort_values_date_def)

lemma sort_values_date_columns [simp]: "columns (sort_values_date df) = columns df"
  by (simp add: sort_values_date_def)

lemma lagged_table_char:
  assumes cd: "c_date \<in> set (columns df)" and ca: "c_aqi \<in> set (columns df)"
    and dt: "list_all is_date_or_missing (getcol df c_date)"
  defines "S \<equiv> rows (sort_values_date df)"
  shows "\<exists>lt. lagged_table df L = Inr lt
     \<and> length (rows lt) = length (rows df)
     \<and> set (columns lt) = set (columns df) \<union> lag_col ` {1..L} \<union> {c_dow, c_month, c_aqi_next}
     \<and> (\<forall>j < length (rows df).
          fst (rows lt ! j) = fst (S ! j)
          \<and> snd (rows lt ! j) c_aqi_next
              = (if j + 1 < length (rows df) then snd (S ! (j + 1)) c_aqi else Missing)
          \<and> snd (rows lt ! j) c_month = dt_field month_of (snd (S ! j) c_date)
          \<and> snd (rows lt ! j) c_dow = dt_field dayofweek (snd (S ! j) c_date)
          \<and> (\<forall>i. 1 \<le> i \<and> i \<le> L \<longrightarrow>
                snd (rows lt ! j) (lag_col i) = (if j < i then Missing else snd (S ! (j - i)) c_aqi))
          \<and> (\<forall>c. c \<notin> lag_col ` {1..L} \<union> {c_dow, c_month, c_aqi_next} \<longrightarrow>
                snd (rows lt ! j) c = snd (S ! j) c))"
proof -
  let ?n = "length (rows df)"
  let ?S = "sort_values_date df"
  let ?T = "add_lags ?S L"
  have nS: "length (rows ?S) = ?n" by simp
  note P = add_lags_props [of ?S L, unfolded nS]
  from P have lenT: "length (rows ?T) = ?n" by simp
  from P have colsT: "set (columns ?T) = set (columns df) \<union> lag_col ` {1..L}" by simp
  from P have fstT: "\<And>j. j < ?n \<Longrightarrow> fst (rows ?T ! j) = fst (S ! j)" by (simp add: S_def)
  from P have lagT: "\<And>j i. j < ?n \<Longrightarrow> 1 \<le> i \<Longrightarrow> i \<le> L \<Longrightarrow>
      snd (rows ?T ! j) (lag_col i) = shift i (getcol ?S c_aqi) ! j" by simp
  from P have othT: "\<And>j c. j < ?n \<Longrightarrow> c \<notin> lag_col ` {1..L} \<Longrightarrow>
      snd (rows ?T ! j) c = snd (S ! j) c" by (simp add: S_def)
  define d1 where "d1 = setcol ?T c_dow (map (dt_field dayofweek) (getcol ?T c_date))"
  define d2 where "d2 = setcol d1 c_month (map (dt_field month_of) (getcol d1 c_date))"
  define d3 where "d3 = setcol d2 c_aqi_next (shift_back (getcol d2 c_aqi))"
  have len1: "length (rows d1) = ?n" by (simp add: d1_def lenT)
  have r1: "rows d1 ! j = (fst (rows ?T ! j),
      (snd (rows ?T ! j))(c_dow := dt_field dayofweek (snd (rows ?T ! j) c_date)))"
    if "j < ?n" for j
    unfolding d1_def using that by (simp add: setcol_nth lenT getcol_nth)
  have len2: "length (rows d2) = ?n" by (simp add: d2_def len1)
  have r2: "rows d2 ! j = (fst (rows d1 ! j),
      (snd (rows d1 ! j))(c_month := dt_field month_of (snd (rows d1 ! j) c_date)))"
    if "j < ?n" for j
    unfolding d2_def using that by (simp add: setcol_nth len1 getcol_nth)
  have len3: "length (rows d3) = ?n" by (simp add: d3_def len2)
  have r3: "rows d3 ! j = (fst (rows d2 ! j),
      (snd (rows d2 ! j))(c_aqi_next := shift_back (getcol d2 c_aqi) ! j))"
    if "j < ?n" for j
    unfolding d3_def using that by (simp add: setcol_nth len2)
  have nl: "c_date \<notin> lag_col ` {1..L}" "c_aqi \<notin> lag_col ` {1..L}" by auto
  have aq2: "getcol d2 c_aqi ! j = snd (S ! j) c_aqi" if "j < ?n" for j
    using that r2 [OF that] r1 [OF that] othT [OF that nl(2)] by (simp add: getcol_nth len2)
  have e: "lagged_table df L = Inr d3"
    unfolding lagged_table_def Let_def d3_def d2_def d1_def add_lags_def
    using cd ca dt by (simp add: has_col_def)
  have cols3: "set (columns d3)
      = set (columns df) \<union> lag_col ` {1..L} \<union> {c_dow, c_month, c_aqi_next}"
    by (auto simp: d3_def d2_def d1_def colsT)
  have main: "fst (rows d3 ! j) = fst (S ! j)
          \<and> snd (rows d3 ! j) c_aqi_next
              = (if j + 1 < ?n then snd (S ! (j + 1)) c_aqi else Missing)
          \<and> snd (rows d3 ! j) c_month = dt_field month_of (snd (S ! j) c_date)
          \<and> snd (rows d3 ! j) c_dow = dt_field dayofweek (snd (S ! j) c_date)
          \<and> (\<forall>i. 1 \<le> i \<and> i \<le> L \<longrightarrow>
                snd (rows d3 ! j) (lag_col i) = (if j < i then Missing else snd (S ! (j - i)) c_aqi))
          \<and> (\<forall>c. c \<notin> lag_col ` {1..L} \<union> {c_dow, c_month, c_aqi_next} \<longrightarrow>
                snd (rows d3 ! j) c = snd (S ! j) c)"
    if j: "j < ?n" for j
  proof -
    have a: "fst (rows d3 ! j) = fst (S ! j)"
      using r3 [OF j] r2 [OF j] r1 [OF j] fstT [OF j] by simp
    have "shift_back (getcol d2 c_aqi) ! j
        = (if j + 1 < ?n then getcol d2 c_aqi ! (j + 1) else Missing)"
      using j by (simp add: shift_back_nth len2)
    then have b: "snd (rows d3 ! j) c_aqi_next
        = (if j + 1 < ?n then snd (S ! (j + 1)) c_aqi else Missing)"
      using r3 [OF j] aq2 [of "j + 1"] by simp
    have c: "snd (rows d3 ! j) c_month = dt_field month_of (snd (S ! j) c_date)"
      using r3 [OF j] r2 [OF j] r1 [OF j] othT [OF j nl(1)] by simp
    have d: "snd (rows d3 ! j) c_dow = dt_field dayofweek (snd (S ! j) c_date)"
      using r3 [OF j] r2 [OF j] r1 [OF j] othT [OF j nl(1)] by simp
    have f: "snd (rows d3 ! j) (lag_col i) = (if j < i then Missing else snd (S ! (j - i)) c_aqi)"
      if "1 \<le> i" "i \<le> L" for i
    proof -
      have "snd (rows d3 ! j) (lag_col i) = shift i (getcol ?S c_aqi) ! j"
        using r3 [OF j] r2 [OF j] r1 [OF j] lagT [OF j that] by simp
      also have "\<dots> = (if j < i then Missing else getcol ?S c_aqi ! (j - i))"
        using j by (simp add: shift_nth)
      also have "\<dots> = (if j < i then Missing else snd (S ! (j - i)) c_aqi)"
        using j by (simp add: getcol_nth S_def)
      finally show ?thesis .
    qed
    have g: "snd (rows d3 ! j) c = snd (S ! j) c"
      if "c \<notin> lag_col ` {1..L} \<union> {c_dow, c_month, c_aqi_next}" for c
    proof -
      have "c \<notin> lag_col ` {1..L}" "c \<noteq> c_dow" "c \<noteq> c_month" "c \<noteq> c_aqi_next"
        using that by auto
      then show ?thesis using r3 [OF j] r2 [OF j] r1 [OF j] othT [OF j] by simp
    qed
    show ?thesis using a b c d f g by blast
  qed
  show ?thesis
    apply (rule exI [of _ d3])
    apply (intro conjI e len3 cols3)
    using main apply blast
    done
qed

lemma filter_range:
  assumes "a \<le> b" "b \<le> length xs"
    and "\<And>j. j < length xs \<Longrightarrow> P (xs ! j) \<longleftrightarrow> a \<le> j \<and> j < b"
  shows "filter P xs = take (b - a) (drop a xs)"
proof -
  have split: "xs = take a xs @ take (b - a) (drop a xs) @ drop b xs"
  proof -
    have "drop a xs = take (b - a) (drop a xs) @ drop (b - a) (drop a xs)"
      by (rule append_take_drop_id [symmetric])
    moreover have "drop (b - a) (drop a xs) = drop b xs" using assms(1) by simp
    moreover have "xs = take a xs @ drop a xs" by simp
    ultimately show ?thesis by simp
  qed
  have 1: "filter P (take a xs) = []"
  proof -
    have "\<not> P x" if "x \<in> set (take a xs)" for x
    proof -
      from that obtain j where "j < length (take a xs)" "x = take a xs ! j"
        by (auto simp: in_set_conv_nth)
      then have "j < length xs" "j < a" "x = xs ! j" by simp_all
      then show ?thesis using assms(3) by simp
    qed
    then show ?thesis by (simp add: filter_empty_conv)
  qed
  have 2: "filter P (take (b - a) (drop a xs)) = take (b - a) (drop a xs)"
  proof -
    have "P x" if "x \<in> set (take (b - a) (drop a xs))" for x
    proof -
      from that obtain j where j: "j < length (take (b - a) (drop a xs))"
        and x: "x = take (b - a) (drop a xs) ! j"
        by (auto simp: in_set_conv_nth)
      from j have jb: "j < b - a" and "a + j < length xs" by auto
      moreover have "x = xs ! (a + j)" using x j assms(1,2) by simp
      ultimately show ?thesis using assms(3) [of "a + j"] by simp
    qed
    then show ?thesis by simp
  qed
  have 3: "filter P (drop b xs) = []"
  proof -
    have "\<not> P x" if "x \<in> set (drop b xs)" for x
    proof -
      from that obtain j where j: "j < length (drop b xs)" and x: "x = drop b xs ! j"
        by (auto simp: in_set_conv_nth)
      from j have "b + j < length xs" by simp
      moreover have "x = xs ! (b + j)" using x assms(2) by simp
      ultimately show ?thesis using assms(3) [of "b + j"] by simp
    qed
    then show ?thesis by (simp add: filter_empty_conv)
  qed
  have "filter P xs = filter P (take a xs) @ filter P (take (b - a) (drop a xs))
      @ filter P (drop b xs)"
    by (subst split) (simp only: filter_append)
  then show ?thesis by (simp add: 1 2 3)
qed

lemma sort_values_date_sorted:
  assumes "\<forall>ir \<in> set (rows df). snd ir c_date \<noteq> Missing"
  shows "sorted (map (\<lambda>ir. date_of (snd ir c_date)) (rows (sort_values_date df)))"
proof -
  have "filter (\<lambda>ir. snd ir c_date = Missing) (rows df) = []"
    using assms by (simp add: filter_empty_conv)
  then show ?thesis by (simp add: sort_values_date_def)
qed

lemma dt_field_Date [simp]: "dt_field f (Date d) \<noteq> Missing"
  by (simp add: dt_field_def)

lemma date_cell:
  "is_date_or_missing c \<Longrightarrow> c \<noteq> Missing \<Longrightarrow> \<exists>d. c = Date d"
  by (cases c) (simp_all add: is_date_or_missing_def)

lemma reset_index_nth:
  "k < length (rows d) \<Longrightarrow> rows (reset_index d) ! k = (k, snd (rows d ! k))"
  by (simp add: reset_index_def)

lemma reset_index_length [simp]: "length (rows (reset_index d)) = length (rows d)"
  by (simp add: reset_index_def)

lemma reset_index_fst: "map fst (rows (reset_index d)) = [0..<length (rows d)]"
  by (simp add: reset_index_def)

lemma supervised_shape:
  assumes cd: "c_date \<in> set (columns df)" and ca: "c_aqi \<in> set (columns df)"
    and dt: "list_all is_date_or_missing (getcol df c_date)"
    and full: "\<forall>ir \<in> set (rows df). \<forall>c \<in> set (columns df). snd ir c \<noteq> Missing"
    and big: "L + 1 < length (rows df)"
  shows "\<exists>lt ds.
       lagged_table df L = Inr lt \<and> build_supervised_dataset df L = Inr ds
     \<and> sorted (map (\<lambda>ir. date_of (snd ir c_date)) (rows (sort_values_date df)))
     \<and> set (rows (sort_values_date df)) = set (rows df)
     \<and> length (rows lt) = length (rows df)
     \<and> (\<forall>j < length (rows df). fst (rows lt ! j) = fst (rows (sort_values_date df) ! j))
     \<and> (\<forall>j < length (rows df).
          (\<exists>i. 1 \<le> i \<and> i \<le> L \<and> snd (rows lt ! j) (lag_col i) = Missing) \<longleftrightarrow> j < L)
     \<and> (\<forall>j < length (rows df).
          snd (rows lt ! j) c_aqi_next = Missing \<longleftrightarrow> j = length (rows df) - 1)
     \<and> (\<forall>j < length (rows df).
          \<not> present (columns lt) (rows lt ! j) \<longleftrightarrow>
            (\<exists>i. 1 \<le> i \<and> i \<le> L \<and> snd (rows lt ! j) (lag_col i) = Missing)
            \<or> snd (rows lt ! j) c_aqi_next = Missing)
     \<and> length (rows ds) = length (rows df) - L - 1
     \<and> map fst (rows ds) = [0..<length (rows df) - L - 1]
     \<and> columns ds = columns lt
     \<and> (\<forall>k < length (rows df) - L - 1. snd (rows ds ! k) = snd (rows lt ! (k + L)))
     \<and> (\<forall>k < length (rows df) - L - 1.
          (\<forall>i. 1 \<le> i \<and> i \<le> L \<longrightarrow>
             snd (rows ds ! k) (lag_col i) = snd (rows (sort_values_date df) ! (k + L - i)) c_aqi)
          \<and> snd (rows ds ! k) c_aqi_next = snd (rows (sort_values_date df) ! (k + L + 1)) c_aqi)
     \<and> (\<forall>ir \<in> set (rows ds). \<forall>c \<in> set (columns ds). snd ir c \<noteq> Missing)"
proof -
  let ?n = "length (rows df)"
  let ?S = "rows (sort_values_date df)"
  from lagged_table_char [OF cd ca dt, of L] obtain lt where
    lt: "lagged_table df L = Inr lt" and len: "length (rows lt) = ?n"
    and cols: "set (columns lt) = set (columns df) \<union> lag_col ` {1..L} \<union> {c_dow, c_month, c_aqi_next}"
    and ch: "\<forall>j < ?n.
          fst (rows lt ! j) = fst (?S ! j)
          \<and> snd (rows lt ! j) c_aqi_next
              = (if j + 1 < ?n then snd (?S ! (j + 1)) c_aqi else Missing)
          \<and> snd (rows lt ! j) c_month = dt_field month_of (snd (?S ! j) c_date)
          \<and> snd (rows lt ! j) c_dow = dt_field dayofweek (snd (?S ! j) c_date)
          \<and> (\<forall>i. 1 \<le> i \<and> i \<le> L \<longrightarrow>
                snd (rows lt ! j) (lag_col i) = (if j < i then Missing else snd (?S ! (j - i)) c_aqi))
          \<and> (\<forall>c. c \<notin> lag_col ` {1..L} \<union> {c_dow, c_month, c_aqi_next} \<longrightarrow>
                snd (rows lt ! j) c = snd (?S ! j) c)"
    by blast
  have Sfull: "snd (?S ! j) c \<noteq> Missing" if "j < ?n" "c \<in> set (columns df)" for j c
  proof -
    have "?S ! j \<in> set ?S" by (rule nth_mem) (simp add: that(1))
    then have "?S ! j \<in> set (rows df)" by simp
    then show ?thesis using full that(2) by blast
  qed
  have Sdate: "\<exists>d. snd (?S ! j) c_date = Date d" if "j < ?n" for j
  proof -
    have "?S ! j \<in> set ?S" by (rule nth_mem) (simp add: that)
    then have "?S ! j \<in> set (rows df)" by simp
    then have "is_date_or_missing (snd (?S ! j) c_date)"
      using dt by (auto simp: list_all_iff getcol_def)
    then show ?thesis using date_cell Sfull [OF that cd] by blast
  qed
  have nodate: "\<forall>ir \<in> set (rows df). snd ir c_date \<noteq> Missing" using full cd by blast
  have p1: "sorted (map (\<lambda>ir. date_of (snd ir c_date)) ?S)"
    using sort_values_date_sorted [OF nodate] .
  have lagm: "(\<exists>i. 1 \<le> i \<and> i \<le> L \<and> snd (rows lt ! j) (lag_col i) = Missing) \<longleftrightarrow> j < L"
    if j: "j < ?n" for j
  proof
    assume "\<exists>i. 1 \<le> i \<and> i \<le> L \<and> snd (rows lt ! j) (lag_col i) = Missing"
    then obtain i where i: "1 \<le> i" "i \<le> L" and m: "snd (rows lt ! j) (lag_col i) = Missing"
      by blast
    have "snd (rows lt ! j) (lag_col i) = (if j < i then Missing else snd (?S ! (j - i)) c_aqi)"
      using ch j i by blast
    moreover have "snd (?S ! (j - i)) c_aqi \<noteq> Missing" using Sfull [of "j - i"] j ca by simp
    ultimately have "j < i" using m by (simp split: if_splits)
    then show "j < L" using i by simp
  next
    assume "j < L"
    then have "1 \<le> L" "L \<le> L" "snd (rows lt ! j) (lag_col L) = Missing"
      using ch j by (simp_all)
    then show "\<exists>i. 1 \<le> i \<and> i \<le> L \<and> snd (rows lt ! j) (lag_col i) = Missing" by blast
  qed
  have labm: "snd (rows lt ! j) c_aqi_next = Missing \<longleftrightarrow> j = ?n - 1" if j: "j < ?n" for j
  proof -
    have "snd (rows lt ! j) c_aqi_next
        = (if j + 1 < ?n then snd (?S ! (j + 1)) c_aqi else Missing)"
      using ch j by blast
    moreover have "j + 1 < ?n \<Longrightarrow> snd (?S ! (j + 1)) c_aqi \<noteq> Missing"
      using Sfull [of "j + 1"] ca by simp
    ultimately show ?thesis using j by (auto split: if_splits)
  qed
  have pres: "present (columns lt) (rows lt ! j) \<longleftrightarrow> L \<le> j \<and> j < ?n - 1" if j: "j < ?n" for j
  proof
    assume p: "present (columns lt) (rows lt ! j)"
    then have all: "\<And>c. c \<in> set (columns lt) \<Longrightarrow> snd (rows lt ! j) c \<noteq> Missing"
      by (simp add: present_def list_all_iff)
    have "snd (rows lt ! j) c_aqi_next \<noteq> Missing" using all cols by simp
    then have a: "j \<noteq> ?n - 1" using labm [OF j] by simp
    have "\<not> (\<exists>i. 1 \<le> i \<and> i \<le> L \<and> snd (rows lt ! j) (lag_col i) = Missing)"
      using all cols by auto
    then have "\<not> j < L" using lagm [OF j] by blast
    then show "L \<le> j \<and> j < ?n - 1" using a j by simp
  next
    assume r: "L \<le> j \<and> j < ?n - 1"
    have "snd (rows lt ! j) c \<noteq> Missing" if c: "c \<in> set (columns lt)" for c
    proof -
      consider (nx) "c = c_aqi_next" | (mo) "c = c_month" | (dw) "c = c_dow"
        | (lg) "c \<in> lag_col ` {1..L}"
        | (ot) "c \<notin> lag_col ` {1..L} \<union> {c_dow, c_month, c_aqi_next}"
        by blast
      then show ?thesis
      proof cases
        case nx
        then show ?thesis using labm [OF j] r by simp
      next
        case mo
        obtain d where "snd (?S ! j) c_date = Date d" using Sdate [OF j] by blast
        then show ?thesis using ch j mo by simp
      next
        case dw
        obtain d where "snd (?S ! j) c_date = Date d" using Sdate [OF j] by blast
        then show ?thesis using ch j dw by simp
      next
        case lg
        then obtain i where "1 \<le> i" "i \<le> L" "c = lag_col i" by auto
        then show ?thesis using lagm [OF j] r by auto
      next
        case ot
        have "snd (rows lt ! j) c = snd (?S ! j) c" using ch j ot by blast
        moreover have "c \<in> set (columns df)" using c cols ot by blast
        ultimately show ?thesis using Sfull [OF j] by simp
      qed
    qed
    then show "present (columns lt) (rows lt ! j)" by (simp add: present_def list_all_iff)
  qed
  have dropped: "\<not> present (columns lt) (rows lt ! j) \<longleftrightarrow>
            (\<exists>i. 1 \<le> i \<and> i \<le> L \<and> snd (rows lt ! j) (lag_col i) = Missing)
            \<or> snd (rows lt ! j) c_aqi_next = Missing" if j: "j < ?n" for j
    using pres [OF j] lagm [OF j] labm [OF j] j by auto
  define kept where "kept = take (?n - 1 - L) (drop L (rows lt))"
  have f: "filter (present (columns lt)) (rows lt) = kept"
    unfolding kept_def
    by (rule filter_range) (use big len pres in simp_all)
  define ds where "ds = reset_index (dropna (columns lt) lt)"
  have b: "build_supervised_dataset df L = Inr ds"
    by (simp add: build_supervised_dataset_def lt ds_def)
  have rk: "rows (dropna (columns lt) lt) = kept" by (simp add: dropna_def f)
  have lk: "length kept = ?n - L - 1" using big len by (simp add: kept_def)
  have kn: "kept ! k = rows lt ! (k + L)" if "k < ?n - L - 1" for k
    using that big len by (simp add: kept_def add.commute)
  have p5: "length (rows ds) = ?n - L - 1" by (simp add: ds_def rk lk)
  have p6: "map fst (rows ds) = [0..<?n - L - 1]"
    by (simp add: ds_def reset_index_fst rk lk)
  have p7: "columns ds = columns lt" by (simp add: ds_def reset_index_def dropna_def)
  have p8: "snd (rows ds ! k) = snd (rows lt ! (k + L))" if "k < ?n - L - 1" for k
    using that by (simp add: ds_def reset_index_nth rk lk kn)
  have p9: "(\<forall>i. 1 \<le> i \<and> i \<le> L \<longrightarrow>
             snd (rows ds ! k) (lag_col i) = snd (?S ! (k + L - i)) c_aqi)
          \<and> snd (rows ds ! k) c_aqi_next = snd (?S ! (k + L + 1)) c_aqi"
    if k: "k < ?n - L - 1" for k
  proof -
    have j: "k + L < ?n" and j1: "k + L + 1 < ?n" using k by simp_all
    have "snd (rows lt ! (k + L)) (lag_col i) = snd (?S ! (k + L - i)) c_aqi"
      if "1 \<le> i" "i \<le> L" for i
      using ch j that by simp
    moreover have "snd (rows lt ! (k + L)) c_aqi_next = snd (?S ! (k + L + 1)) c_aqi"
      using ch j j1 by simp
    ultimately show ?thesis unfolding p8 [OF k] by blast
  qed
  have p10: "\<forall>ir \<in> set (rows ds). \<forall>c \<in> set (columns ds). snd ir c \<noteq> Missing"
  proof (intro ballI)
    fix ir c assume ir: "ir \<in> set (rows ds)" and c: "c \<in> set (columns ds)"
    from ir obtain k where k: "k < ?n - L - 1" and e: "ir = rows ds ! k"
      using p5 by (auto simp: in_set_conv_nth)
    have "present (columns lt) (rows lt ! (k + L))" using pres [of "k + L"] k by simp
    then show "snd ir c \<noteq> Missing"
      using c unfolding e p8 [OF k] p7 by (simp add: present_def list_all_iff)
  qed
  show ?thesis
    apply (rule exI [of _ lt], rule exI [of _ ds])
    apply (intro conjI lt b p1 len p5 p6 p7 p10)
    using ch apply simp
    using ch apply blast
    using lagm apply blast
    using labm apply blast
    using dropped apply blast
    using p8 apply blast
    using p9 apply blast
    done
qed

text \<open>
  Claim C4: on a table with a datetime-like \<open>date\<close> column and an \<open>aqi\<close> column (a
  preprocessed table is one), \<open>n\<close> rows, every cell of every column present and
  \<open>n > L + 1\<close>, \<open>_build_supervised_dataset\<close> sorts by date ascending; a row of the
  sorted table is dropped if and only if one of its lag cells or its label is missing,
  which is the case exactly for the first \<open>L\<close> rows (a lag) and the last row (the
  label); the result has \<open>n - L - 1\<close> rows, the index \<open>0, 1, ..., n - L - 2\<close>, no missing
  cell in any column, and row \<open>k\<close> carries as \<open>aqi_lag_i\<close> the \<open>aqi\<close> of the sorted
  row \<open>k + L - i\<close> and as \<open>aqi_next\<close> the \<open>aqi\<close> of the sorted row \<open>k + L + 1\<close>.
\<close>

theorem build_supervised_dataset_shape:
  assumes cd: "c_date \<in> set (columns df)" and ca: "c_aqi \<in> set (columns df)"
    and dt: "list_all is_date_or_missing (getcol df c_date)"
    and full: "\<forall>ir \<in> set (rows df). \<forall>c \<in> set (columns df). snd ir c \<noteq> Missing"
    and big: "L + 1 < length (rows df)"
  shows "\<exists>lt ds.
       lagged_table df L = Inr lt \<and> build_supervised_dataset df L = Inr ds
     \<and> sorted (map (\<lambda>ir. date_of (snd ir c_date)) (rows (sort_values_date df)))
     \<and> set (rows (sort_values_date df)) = set (rows df)
     \<and> length (rows lt) = length (rows df)
     \<and> (\<forall>j < length (rows df). fst (rows lt ! j) = fst (rows (sort_values_date df) ! j))
     \<and> (\<forall>j < length (rows df).
          (\<exists>i. 1 \<le> i \<and> i \<le> L \<and> snd (rows lt ! j) (lag_col i) = Missing) \<longleftrightarrow> j < L)
     \<and> (\<forall>j < length (rows df).
          snd (rows lt ! j) c_aqi_next = Missing \<longleftrightarrow> j = length (rows df) - 1)
     \<and> (\<forall>j < length (rows df).
          \<not> present (columns lt) (rows lt ! j) \<longleftrightarrow>
            (\<exists>i. 1 \<le> i \<and> i \<le> L \<and> snd (rows lt ! j) (lag_col i) = Missing)
            \<or> snd (rows lt ! j) c_aqi_next = Missing)
     \<and> length (rows ds) = length (rows df) - L - 1
     \<and> map fst (rows ds) = [0..<length (rows df) - L - 1]
     \<and> columns ds = columns lt
     \<and> (\<forall>k < length (rows df) - L - 1. snd (rows ds ! k) = snd (rows lt ! (k + L)))
     \<and> (\<forall>k < length (rows df) - L - 1.
          (\<forall>i. 1 \<le> i \<and> i \<le> L \<longrightarrow>
             snd (rows ds ! k) (lag_col i) = snd (rows (sort_values_date df) ! (k + L - i)) c_aqi)
          \<and> snd (rows ds ! k) c_aqi_next = snd (rows (sort_values_date df) ! (k + L + 1)) c_aqi)
     \<and> (\<forall>ir \<in> set (rows ds). \<forall>c \<in> set (columns ds). snd ir c \<noteq> Missing)"
  using assms by (rule supervised_shape)

lemma final_sample_row:
  "final_row rt0 True col (sample_row (Date (int k)) w (Num 80)) = processed_row k w"
  by (rule ext)
    (simp add: final_row_def coerce_row_def derive_row_def processed_row_def to_numeric_def
      to_datetime_cell_def Let_def)

lemma daily_preprocessed:
  "preprocess_data rt0 (daily_table n w) = Inr (daily_processed n w)"
  unfolding daily_pre
  by (simp add: daily_table_def daily_processed_def upd_rows_def final_sample_row
      out_columns_def add_col_def)

lemma processed_row_apply [simp]:
  "processed_row k w c_date = Date (int k)" "processed_row k w c_max_temp = Num 30"
  "processed_row k w c_min_temp = Num 20" "processed_row k w c_weather = w"
  "processed_row k w c_wind = Str [21271, 39118, 49, 32423]" "processed_row k w c_aqi = Num 80"
  "processed_row k w c_wind_speed = Num 1"
  "processed_row k w c_wind_direction = Str [21271, 39118]"
  "processed_row k w c_weather_simple = weather_simple rt0 w"
  by (simp_all add: processed_row_def)

lemma weather_simple_not_missing [simp]: "weather_simple rt w \<noteq> Missing"
  by (simp add: weather_simple_def split: cell.splits)

lemma daily_processed_simps [simp]:
  "columns (daily_processed n w) = [c_date, c_max_temp, c_min_temp, c_weather, c_wind, c_aqi,
     c_wind_speed, c_wind_direction, c_weather_simple]"
  "rows (daily_processed n w) = map (\<lambda>k. (k, processed_row k w)) [0..<n]"
  "length (rows (daily_processed n w)) = n"
  by (simp_all add: daily_processed_def)

lemma daily_processed_datetime:
  "list_all is_date_or_missing (getcol (daily_processed n w) c_date)"
  by (simp add: getcol_def list_all_iff is_date_or_missing_def)

lemma daily_processed_full:
  "w \<noteq> Missing \<Longrightarrow>
     \<forall>ir \<in> set (rows (daily_processed n w)). \<forall>c \<in> set (columns (daily_processed n w)).
        snd ir c \<noteq> Missing"
  by auto

theorem build_supervised_dataset_shape_witness:
  "\<exists>ds. preprocess_data rt0 (daily_table 4 (Str [22810, 20113]))
          = Inr (daily_processed 4 (Str [22810, 20113]))
     \<and> build_supervised_dataset (daily_processed 4 (Str [22810, 20113])) 2 = Inr ds
     \<and> length (rows ds) = 1 \<and> map fst (rows ds) = [0]"
proof -
  let ?p = "daily_processed 4 (Str [22810, 20113])"
  have cd: "c_date \<in> set (columns ?p)" and ca: "c_aqi \<in> set (columns ?p)" by simp_all
  have full: "\<forall>ir \<in> set (rows ?p). \<forall>c \<in> set (columns ?p). snd ir c \<noteq> Missing"
    by (rule daily_processed_full) simp
  have big: "2 + 1 < length (rows ?p)" by simp
  note t = build_supervised_dataset_shape [OF cd ca daily_processed_datetime full big]
  from t obtain lt ds where b: "build_supervised_dataset ?p 2 = Inr ds"
    and l: "length (rows ds) = length (rows ?p) - 2 - 1"
    and i: "map fst (rows ds) = [0..<length (rows ?p) - 2 - 1]"
    by (elim exE conjE)
  have l': "length (rows ds) = 1" using l by simp
  have i': "map fst (rows ds) = [0]" using i by simp
  show ?thesis
    by (rule exI [of _ ds]) (intro conjI daily_preprocessed b l' i')
qed

lemma dict_set_map_of: "map_of (dict_set d k v) = (map_of d)(k \<mapsto> v)"
  by (induction d) (auto simp: fun_eq_iff)

lemma dict_set_nonempty: "dict_set d k v \<noteq> []"
  by (cases d) (auto split: if_splits)

lemma lag_features_Inr:
  "lag_features recent ns = Inr vs \<longleftrightarrow>
     (\<forall>i \<in> set ns. 1 \<le> i \<and> i \<le> length recent)
     \<and> vs = map (\<lambda>i. recent ! (length recent - i)) ns"
proof (induction ns arbitrary: vs)
  case Nil
  show ?case by auto
next
  case (Cons i ns)
  show ?case
  proof (cases "1 \<le> i \<and> i \<le> length recent")
    case False
    then show ?thesis by (auto simp: neg_index_def)
  next
    case True
    then have n: "neg_index recent i = Inr (recent ! (length recent - i))"
      by (simp add: neg_index_def)
    show ?thesis
    proof (cases "lag_features recent ns")
      case (Inl e)
      then have "\<not> (\<forall>i \<in> set ns. 1 \<le> i \<and> i \<le> length recent)"
        using Cons.IH by (metis Inl_Inr_False)
      then show ?thesis using Inl n by auto
    next
      case (Inr ws)
      then show ?thesis using Cons.IH [of ws] n True by auto
    qed
  qed
qed

lemma predict_all_map_of:
  assumes "predict_all ms X qs acc = Inr preds"
  shows "(\<forall>q \<in> set qs. \<exists>m. map_of ms q = Some m \<and> map_of preds q = Some (m X))
     \<and> (\<forall>q. q \<notin> set qs \<longrightarrow> map_of preds q = map_of acc q)"
  using assms
proof (induction qs arbitrary: acc)
  case Nil
  then show ?case by simp
next
  case (Cons q qs)
  from Cons.prems obtain m where m: "map_of ms q = Some m"
    and r: "predict_all ms X qs (dict_set acc q (m X)) = Inr preds"
    by (auto split: option.splits)
  note IH = Cons.IH [OF r]
  have a: "\<exists>m'. map_of ms q' = Some m' \<and> map_of preds q' = Some (m' X)" if "q' \<in> set (q # qs)" for q'
  proof (cases "q' \<in> set qs")
    case True
    then show ?thesis using IH by blast
  next
    case False
    then have "q' = q" using that by simp
    moreover have "map_of preds q' = map_of (dict_set acc q (m X)) q'" using IH False by blast
    ultimately show ?thesis using m by (simp add: dict_set_map_of)
  qed
  have b: "map_of preds q' = map_of acc q'" if "q' \<notin> set (q # qs)" for q'
  proof -
    have "map_of preds q' = map_of (dict_set acc q (m X)) q'" using IH that by simp
    then show ?thesis using that by (simp add: dict_set_map_of)
  qed
  show ?case using a b by blast
qed

lemma predict_all_head:
  assumes "predict_all ms X qs ((q0, v0) # acc) = Inr preds"
    and "map_of ms q0 = Some m0" "v0 = m0 X"
  shows "preds \<noteq> [] \<and> hd preds = (q0, v0)"
  using assms(1)
proof (induction qs arbitrary: acc)
  case Nil
  then show ?case by auto
next
  case (Cons q qs)
  from Cons.prems obtain m where m: "map_of ms q = Some m"
    and r: "predict_all ms X qs (dict_set ((q0, v0) # acc) q (m X)) = Inr preds"
    by (auto split: option.splits)
  show ?case
  proof (cases "q0 = q")
    case True
    then have "m X = v0" using m assms(2,3) by simp
    then have "dict_set ((q0, v0) # acc) q (m X) = (q0, v0) # acc" using True by simp
    then show ?thesis using r Cons.IH by simp
  next
    case False
    then have "dict_set ((q0, v0) # acc) q (m X) = (q0, v0) # dict_set acc q (m X)" by simp
    then show ?thesis using r Cons.IH by simp
  qed
qed

lemma predict_all_total:
  assumes "set qs \<subseteq> fst ` set ms"
  shows "\<exists>preds. predict_all ms X qs acc = Inr preds"
  using assms
proof (induction qs arbitrary: acc)
  case Nil
  then show ?case by simp
next
  case (Cons q qs)
  then have "q \<in> fst ` set ms" by simp
  then obtain m where "map_of ms q = Some m"
    by (metis map_of_eq_None_iff not_Some_eq)
  then show ?case using Cons by simp
qed

lemma predict_all_point:
  assumes "predict_all ms X qs [] = Inr preds"
  shows "case preds of
           [] \<Rightarrow> qs = []
         | first # others \<Rightarrow> qs \<noteq> [] \<and>
             (\<exists>m. map_of ms (point_quantile qs) = Some m
                  \<and> dict_get preds (1 / 2) (snd first) = m X)"
proof (cases qs)
  case Nil
  then show ?thesis using assms by simp
next
  case (Cons q0 qs')
  from assms Cons obtain m0 where m0: "map_of ms q0 = Some m0"
    and r: "predict_all ms X qs' [(q0, m0 X)] = Inr preds"
    by (auto split: option.splits)
  from predict_all_head [OF r m0 refl] obtain others where p: "preds = (q0, m0 X) # others"
    by (cases preds) auto
  note M = predict_all_map_of [OF assms]
  have "\<exists>m. map_of ms (point_quantile qs) = Some m
      \<and> dict_get preds (1 / 2) (m0 X) = m X"
  proof (cases "(1 / 2 :: real) \<in> set qs")
    case True
    then obtain m where "map_of ms (1 / 2) = Some m" "map_of preds (1 / 2) = Some (m X)"
      using M by blast
    then show ?thesis using True by (simp add: point_quantile_def dict_get_def)
  next
    case False
    then have "map_of preds (1 / 2) = None" using M by simp
    then show ?thesis using False m0 Cons by (simp add: point_quantile_def dict_get_def)
  qed
  then show ?thesis using p Cons by simp
qed

lemma forecast_step_parts:
  assumes "forecast_step env s recent = Inr r"
  shows "\<exists>lag_block rest first others.
      lag_features recent [1..<env_lags env + 1] = Inr lag_block
      \<and> features r = lag_block @ rest \<and> length rest = 5
      \<and> predict_all (env_models env) (features r) (env_quantiles env) [] = Inr (first # others)
      \<and> point r = dict_get (first # others) (1 / 2) (snd first)"
  using assms unfolding forecast_step_def Let_def
  by (auto split: sum.splits list.splits)

lemma forecast_step_Inr:
  assumes "forecast_step env s recent = Inr r"
  shows "env_lags env \<le> length recent
    \<and> take (env_lags env) (features r)
        = map (\<lambda>i. recent ! (length recent - i)) [1..<env_lags env + 1]
    \<and> length (features r) = env_lags env + 5
    \<and> env_quantiles env \<noteq> []
    \<and> (\<exists>m. map_of (env_models env) (point_quantile (env_quantiles env)) = Some m
           \<and> point r = m (features r))"
proof -
  let ?L = "env_lags env"
  from forecast_step_parts [OF assms] obtain lag_block rest first others where
    lb: "lag_features recent [1..<?L + 1] = Inr lag_block"
    and f: "features r = lag_block @ rest" and lr: "length rest = 5"
    and pr: "predict_all (env_models env) (features r) (env_quantiles env) [] = Inr (first # others)"
    and pt: "point r = dict_get (first # others) (1 / 2) (snd first)"
    by blast
  from lb have in_range: "\<forall>i \<in> set [1..<?L + 1]. 1 \<le> i \<and> i \<le> length recent"
    and lbv: "lag_block = map (\<lambda>i. recent ! (length recent - i)) [1..<?L + 1]"
    unfolding lag_features_Inr by (simp_all del: upt_Suc)
  have 1: "?L \<le> length recent"
  proof (cases "?L = 0")
    case True
    then show ?thesis by simp
  next
    case False
    then have "?L \<in> set [1..<?L + 1]" by (simp del: upt_Suc)
    then show ?thesis using in_range by blast
  qed
  have ll: "length lag_block = ?L" by (simp add: lbv del: upt_Suc)
  have 2: "take ?L (features r) = map (\<lambda>i. recent ! (length recent - i)) [1..<?L + 1]"
  proof -
    have "take ?L (features r) = lag_block" using ll by (simp add: f)
    then show ?thesis using lbv by simp
  qed
  have 3: "length (features r) = ?L + 5" by (simp add: f ll lr)
  from predict_all_point [OF pr]
  have 4: "env_quantiles env \<noteq> []"
    and 5: "\<exists>m. map_of (env_models env) (point_quantile (env_quantiles env)) = Some m
           \<and> point r = m (features r)"
    by (simp_all add: pt)
  show ?thesis using 1 2 3 4 5 by blast
qed

lemma forecast_step_Inl:
  assumes "forecast_step env s recent = Inl e"
  shows "(\<exists>e'. lag_features recent [1..<env_lags env + 1] = Inl e')
     \<or> (\<exists>X e'. predict_all (env_models env) X (env_quantiles env) [] = Inl e')
     \<or> (\<exists>X. predict_all (env_models env) X (env_quantiles env) [] = Inr [])"
  using assms unfolding forecast_step_def Let_def
  by (auto split: sum.splits list.splits)

lemma forecast_step_total:
  assumes "env_lags env \<le> length recent" "env_quantiles env \<noteq> []"
    "set (env_quantiles env) \<subseteq> fst ` set (env_models env)"
  shows "\<exists>r. forecast_step env s recent = Inr r"
proof (cases "forecast_step env s recent")
  case (Inr r)
  then show ?thesis by blast
next
  case (Inl e)
  have "\<forall>i \<in> set [1..<env_lags env + 1]. 1 \<le> i \<and> i \<le> length recent"
    using assms(1) by (auto simp del: upt_Suc)
  then have lb: "lag_features recent [1..<env_lags env + 1]
      = Inr (map (\<lambda>i. recent ! (length recent - i)) [1..<env_lags env + 1])"
    unfolding lag_features_Inr by (simp del: upt_Suc)
  have pe: "\<exists>first others. predict_all (env_models env) X (env_quantiles env) [] = Inr (first # others)"
    for X
  proof -
    obtain preds where p: "predict_all (env_models env) X (env_quantiles env) [] = Inr preds"
      using predict_all_total [OF assms(3)] by blast
    have "preds \<noteq> []" using predict_all_point [OF p] assms(2) by (cases preds) simp_all
    then show ?thesis using p by (cases preds) simp_all
  qed
  from forecast_step_Inl [OF Inl] consider
    (a) e' where "lag_features recent [1..<env_lags env + 1] = Inl e'"
    | (b) X e' where "predict_all (env_models env) X (env_quantiles env) [] = Inl e'"
    | (c) X where "predict_all (env_models env) X (env_quantiles env) [] = Inr []"
    by blast
  then show ?thesis
  proof cases
    case a
    then show ?thesis using lb by simp
  next
    case b
    then show ?thesis using pe [of X] by auto
  next
    case c
    then show ?thesis using pe [of X] by auto
  qed
qed

lemma forecast_loop_total:
  assumes "env_lags env \<le> length recent" "env_quantiles env \<noteq> []"
    "set (env_quantiles env) \<subseteq> fst ` set (env_models env)"
  shows "\<exists>passes. forecast_loop env s h recent = Inr passes"
  using assms(1)
proof (induction h arbitrary: s recent)
  case 0
  show ?case by simp
next
  case (Suc h)
  obtain r where r: "forecast_step env s recent = Inr r"
    using forecast_step_total [OF Suc.prems assms(2,3)] by blast
  have "env_lags env \<le> length (recent @ [Num (point r)])" using Suc.prems by simp
  from Suc.IH [OF this] obtain rs where
    "forecast_loop env (s + 1) h (recent @ [Num (point r)]) = Inr rs" by blast
  then show ?case using r by simp
qed

lemma forecast_loop_Suc_Inr:
  assumes "forecast_loop env s (Suc h) recent = Inr passes"
  shows "\<exists>r rs. passes = r # rs \<and> forecast_step env s recent = Inr r
      \<and> forecast_loop env (s + 1) h (recent @ [Num (point r)]) = Inr rs"
  using assms by (auto split: sum.splits)

lemma forecast_loop_props:
  assumes "forecast_loop env s h recent = Inr passes"
  shows "length passes = h
     \<and> (\<forall>k < h.
          take (env_lags env) (features (passes ! k))
            = map (\<lambda>i. recent_at recent passes k ! (length (recent_at recent passes k) - i))
                [1..<env_lags env + 1]
          \<and> env_lags env \<le> length (recent_at recent passes k)
          \<and> (\<exists>m. map_of (env_models env) (point_quantile (env_quantiles env)) = Some m
                 \<and> point (passes ! k) = m (features (passes ! k))))"
  using assms
proof (induction h arbitrary: s recent passes)
  case 0
  then show ?case by simp
next
  case (Suc h)
  from forecast_loop_Suc_Inr [OF Suc.prems] obtain r rs where p: "passes = r # rs"
    and st: "forecast_step env s recent = Inr r"
    and lo: "forecast_loop env (s + 1) h (recent @ [Num (point r)]) = Inr rs"
    by blast
  note S = forecast_step_Inr [OF st]
  note IH = Suc.IH [OF lo]
  have len: "length passes = Suc h" using IH p by simp
  have each: "take (env_lags env) (features (passes ! k))
            = map (\<lambda>i. recent_at recent passes k ! (length (recent_at recent passes k) - i))
                [1..<env_lags env + 1]
          \<and> env_lags env \<le> length (recent_at recent passes k)
          \<and> (\<exists>m. map_of (env_models env) (point_quantile (env_quantiles env)) = Some m
                 \<and> point (passes ! k) = m (features (passes ! k)))"
    if "k < Suc h" for k
  proof (cases k)
    case 0
    have "recent_at recent passes 0 = recent" by (simp add: recent_at_def)
    then show ?thesis using S 0 p by simp
  next
    case (Suc k')
    then have k': "k' < h" using that by simp
    have "recent_at recent passes k = recent_at (recent @ [Num (point r)]) rs k'"
      by (simp add: recent_at_def p Suc)
    moreover have "passes ! k = rs ! k'" by (simp add: p Suc)
    ultimately show ?thesis using IH k' by simp
  qed
  show ?case using len each by blast
qed

text \<open>
  Claim C2: in the loop of \<open>forecast_aqi_7_days\<close>, pass \<open>k\<close> (step \<open>k + 1\<close>) takes
  its lag block \<open>[recent_aqi[-1], ..., recent_aqi[-L]]\<close> from the list as it then
  stands, the observed values followed by the point forecasts of the earlier passes; its
  point forecast is the prediction of the model for \<open>q = 0.5\<close> or, if 0.5 was not
  requested, of the model for the first requested quantile; and from the second pass on
  \<open>aqi_lag_1\<close> is the point forecast of the pass before. The models are arbitrary
  functions. With at least \<open>L\<close> starting values and a non-empty list of quantiles, each
  with a model, the loop completes.
\<close>

theorem forecast_loop_feedback:
  "(env_lags env \<le> length recent \<and> env_quantiles env \<noteq> []
      \<and> set (env_quantiles env) \<subseteq> fst ` set (env_models env)
      \<longrightarrow> (\<exists>passes. forecast_loop env 1 h recent = Inr passes))
   \<and> (\<forall>passes. forecast_loop env 1 h recent = Inr passes \<longrightarrow>
         length passes = h
         \<and> (\<forall>k < h.
              take (env_lags env) (features (passes ! k))
                = map (\<lambda>i. recent_at recent passes k ! (length (recent_at recent passes k) - i))
                    [1..<env_lags env + 1]
              \<and> (\<exists>m. map_of (env_models env) (point_quantile (env_quantiles env)) = Some m
                     \<and> point (passes ! k) = m (features (passes ! k)))
              \<and> recent_at recent passes (k + 1) = recent_at recent passes k @ [Num (point (passes ! k))])
         \<and> (\<forall>k. 0 < k \<and> k < h \<and> 1 \<le> env_lags env \<longrightarrow>
              features (passes ! k) ! 0 = Num (point (passes ! (k - 1)))))"
proof -
  have a: "env_lags env \<le> length recent \<and> env_quantiles env \<noteq> []
      \<and> set (env_quantiles env) \<subseteq> fst ` set (env_models env)
      \<longrightarrow> (\<exists>passes. forecast_loop env 1 h recent = Inr passes)"
    using forecast_loop_total by blast
  have b: "length passes = h
         \<and> (\<forall>k < h.
              take (env_lags env) (features (passes ! k))
                = map (\<lambda>i. recent_at recent passes k ! (length (recent_at recent passes k) - i))
                    [1..<env_lags env + 1]
              \<and> (\<exists>m. map_of (env_models env) (point_quantile (env_quantiles env)) = Some m
                     \<and> point (passes ! k) = m (features (passes ! k)))
              \<and> recent_at recent passes (k + 1) = recent_at recent passes k @ [Num (point (passes ! k))])
         \<and> (\<forall>k. 0 < k \<and> k < h \<and> 1 \<le> env_lags env \<longrightarrow>
              features (passes ! k) ! 0 = Num (point (passes ! (k - 1))))"
    if lo: "forecast_loop env 1 h recent = Inr passes" for passes
  proof -
    note P = forecast_loop_props [OF lo]
    from P have len: "length passes = h" by simp
    have app: "recent_at recent passes (k + 1) = recent_at recent passes k @ [Num (point (passes ! k))]"
      if "k < h" for k
      using that len by (simp add: recent_at_def take_Suc_conv_app_nth)
    have fb: "features (passes ! k) ! 0 = Num (point (passes ! (k - 1)))"
      if k: "0 < k" "k < h" and L: "1 \<le> env_lags env" for k
    proof -
      let ?cur = "recent_at recent passes k"
      from P k have t: "take (env_lags env) (features (passes ! k))
            = map (\<lambda>i. ?cur ! (length ?cur - i)) [1..<env_lags env + 1]" by simp
      have "features (passes ! k) ! 0 = take (env_lags env) (features (passes ! k)) ! 0"
        using L by simp
      also have "\<dots> = map (\<lambda>i. ?cur ! (length ?cur - i)) [1..<env_lags env + 1] ! 0"
        by (simp only: t)
      also have "\<dots> = ?cur ! (length ?cur - 1)"
        using L by (simp add: nth_map_upt del: upt_Suc)
      also have "?cur = recent_at recent passes (k - 1) @ [Num (point (passes ! (k - 1)))]"
        using app [of "k - 1"] k by simp
      finally show ?thesis by simp
    qed
    show ?thesis using len P app fb by simp
  qed
  show ?thesis using a b by blast
qed

theorem forecast_loop_feedback_witness:
  "\<exists>passes. forecast_loop sample_env 1 2 [Num 80, Num 90] = Inr passes
     \<and> length passes = 2
     \<and> take 2 (features (passes ! 0)) = [Num 90, Num 80]
     \<and> point (passes ! 0) = sample_model (1 / 2) (features (passes ! 0))
     \<and> features (passes ! 1) ! 0 = Num (point (passes ! 0))"
proof -
  note t = forecast_loop_feedback [of sample_env "[Num 80, Num 90]" 2]
  have pre: "env_lags sample_env \<le> length [Num 80, Num 90 :: cell] \<and> env_quantiles sample_env \<noteq> []
      \<and> set (env_quantiles sample_env) \<subseteq> fst ` set (env_models sample_env)"
    by (simp add: sample_env_def)
  from t pre obtain passes where lo: "forecast_loop sample_env 1 2 [Num 80, Num 90] = Inr passes"
    by blast
  from t lo have len: "length passes = 2"
    and each: "\<forall>k < 2.
              take (env_lags sample_env) (features (passes ! k))
                = map (\<lambda>i. recent_at [Num 80, Num 90] passes k
                            ! (length (recent_at [Num 80, Num 90] passes k) - i))
                    [1..<env_lags sample_env + 1]
              \<and> (\<exists>m. map_of (env_models sample_env) (point_quantile (env_quantiles sample_env)) = Some m
                     \<and> point (passes ! k) = m (features (passes ! k)))
              \<and> recent_at [Num 80, Num 90] passes (k + 1)
                  = recent_at [Num 80, Num 90] passes k @ [Num (point (passes ! k))]"
    and fb: "\<forall>k. 0 < k \<and> k < 2 \<and> 1 \<le> env_lags sample_env \<longrightarrow>
              features (passes ! k) ! 0 = Num (point (passes ! (k - 1)))"
    by blast+
  have pq: "point_quantile (env_quantiles sample_env) = 1 / 2"
    by (simp add: point_quantile_def sample_env_def)
  have lags: "env_lags sample_env = 2" by (simp add: sample_env_def)
  have r0: "recent_at [Num 80, Num 90] passes 0 = [Num 80, Num 90]" by (simp add: recent_at_def)
  from each have "take (env_lags sample_env) (features (passes ! 0))
                = map (\<lambda>i. recent_at [Num 80, Num 90] passes 0
                            ! (length (recent_at [Num 80, Num 90] passes 0) - i))
                    [1..<env_lags sample_env + 1]" by simp
  then have a: "take 2 (features (passes ! 0)) = [Num 90, Num 80]"
    unfolding lags r0 by (simp add: upt_rec)
  from each obtain m where "map_of (env_models sample_env) (point_quantile (env_quantiles sample_env)) = Some m"
      "point (passes ! 0) = m (features (passes ! 0))"
    by (metis zero_less_numeral)
  then have b: "point (passes ! 0) = sample_model (1 / 2) (features (passes ! 0))"
    unfolding pq by (simp add: sample_env_def)
  have c: "features (passes ! 1) ! 0 = Num (point (passes ! 0))"
    using fb lags by simp
  show ?thesis
    by (rule exI [of _ passes]) (intro conjI lo len a b c)
qed

lemma dict_set_keys: "fst ` set (dict_set d k v) = insert k (fst ` set d)"
proof -
  have "dom (map_of (dict_set d k v)) = insert k (dom (map_of d))"
    by (simp add: dict_set_map_of)
  then show ?thesis by (simp add: dom_map_of_conv_image_fst)
qed

lemma train_models_Inr:
  assumes "\<forall>q \<in> set qs. \<exists>m. fit q X y = Inr m"
  shows "\<exists>ms. train_models fit X y qs acc = Inr ms \<and> fst ` set ms = fst ` set acc \<union> set qs"
  using assms
proof (induction qs arbitrary: acc)
  case Nil
  show ?case by simp
next
  case (Cons q qs)
  then obtain m where m: "fit q X y = Inr m" by auto
  from Cons have "\<forall>q \<in> set qs. \<exists>m. fit q X y = Inr m" by simp
  from Cons.IH [OF this, of "dict_set acc q m"] obtain ms where
    "train_models fit X y qs (dict_set acc q m) = Inr ms"
    "fst ` set ms = fst ` set (dict_set acc q m) \<union> set qs" by blast
  then show ?case using m by (auto simp: dict_set_keys)
qed

lemma nunique_le: "nunique col \<le> length col"
proof -
  have "length (remdups (filter (\<lambda>c. c \<noteq> Missing) col)) \<le> length (filter (\<lambda>c. c \<noteq> Missing) col)"
    by (rule length_remdups_leq)
  also have "\<dots> \<le> length col" by (rule length_filter_le)
  finally show ?thesis by (simp add: nunique_def)
qed

lemma nunique_pos:
  assumes "0 < nunique col"
  shows "\<exists>c \<in> set col. c \<noteq> Missing"
proof (rule ccontr)
  assume "\<not> (\<exists>c \<in> set col. c \<noteq> Missing)"
  then have "filter (\<lambda>c. c \<noteq> Missing) col = []" by (simp add: filter_empty_conv)
  then show False using assms by (simp add: nunique_def)
qed

lemma dates_of_nonempty:
  assumes "Date d \<in> set col"
  shows "dates_of col \<noteq> []"
proof -
  have "d \<in> set (dates_of col)"
    using assms by (induction col) (auto simp: dates_of_def split: cell.splits)
  then show ?thesis by auto
qed

lemma py_float_num: "is_num c \<Longrightarrow> \<exists>x. py_float rt c = Inr x"
  by (cases c) (simp_all add: is_num_def py_float_def)

lemma preprocessed_date_column:
  assumes "preprocess_data rt df = Inr p" "c_date \<in> set (columns df)"
  shows "c_date \<in> set (columns p)" "list_all is_date_or_missing (getcol p c_date)"
proof -
  show "c_date \<in> set (columns p)" using assms has_out_columns(1) [OF assms(1)] by simp
  have "clean_row rt True (snd ir)" if "ir \<in> set (rows p)" for ir
    using that assms out_rows_clean [of ir rt True "rows df"]
    unfolding preprocess_data_Inr_iff by simp
  then show "list_all is_date_or_missing (getcol p c_date)"
    by (simp add: list_all_iff getcol_def clean_row_def)
qed

lemma loop_start_Inr:
  assumes ds: "rows ds \<noteq> []"
    and d: "Date d0 \<in> set (getcol p c_date)"
    and num: "\<forall>ir \<in> set (rows p). list_all (\<lambda>c. is_num (snd ir c)) numeric4"
  shows "\<exists>env. loop_start rt p ds L qs fut ms
            = Inr (env, tail L (getcol (sort_values_date p) c_aqi))
     \<and> env_models env = ms \<and> env_quantiles env = qs \<and> env_lags env = L"
proof -
  obtain d dates where dd: "dates_of (getcol p c_date) = d # dates"
    using dates_of_nonempty [OF d] by (cases "dates_of (getcol p c_date)") auto
  have ne: "rows p \<noteq> []" using d by (auto simp: getcol_def)
  then have sne: "rows (sort_values_date p) \<noteq> []"
    using sort_values_date_length [of p] by (metis length_0_conv)
  then have "last (rows (sort_values_date p)) \<in> set (rows (sort_values_date p))"
    by (rule last_in_set)
  then have "last (rows (sort_values_date p)) \<in> set (rows p)" by simp
  then have n4: "list_all (\<lambda>c. is_num (snd (last (rows (sort_values_date p))) c)) numeric4"
    using num by blast
  let ?r = "snd (last (rows (sort_values_date p)))"
  from n4 obtain a b c where f: "py_float rt (?r c_max_temp) = Inr a"
    "py_float rt (?r c_min_temp) = Inr b" "py_float rt (?r c_wind_speed) = Inr c"
    using py_float_num [of "?r c_max_temp" rt] py_float_num [of "?r c_min_temp" rt]
      py_float_num [of "?r c_wind_speed" rt]
    by (auto simp: numeric4_def)
  show ?thesis
    unfolding loop_start_def Let_def using ds sne by (simp add: dd f)
qed

lemma tail_length: "length (tail n xs) = min n (length xs)"
  by (simp add: tail_def)

lemma forecast_step_no_quantiles:
  assumes "env_quantiles env = []" "env_lags env \<le> length recent"
  shows "forecast_step env s recent = Inl IndexError"
proof -
  have "\<forall>i \<in> set [1..<env_lags env + 1]. 1 \<le> i \<and> i \<le> length recent"
    using assms(2) by (auto simp del: upt_Suc)
  then have lb: "lag_features recent [1..<env_lags env + 1]
      = Inr (map (\<lambda>i. recent ! (length recent - i)) [1..<env_lags env + 1])"
    unfolding lag_features_Inr by (simp del: upt_Suc)
  show ?thesis
    unfolding forecast_step_def Let_def lb sum.case assms(1) by simp
qed

lemma supervised_exists:
  assumes p: "preprocess_data rt df = Inr p" and cd: "c_date \<in> set (columns df)"
  shows "\<exists>ds X. build_supervised_dataset p L = Inr ds
     \<and> select_columns ds (feature_cols L) = Inr X \<and> has_col ds c_aqi_next"
proof -
  note pc = preprocessed_date_column [OF p cd]
  note hc = has_out_columns [OF p]
  from lagged_table_char [OF pc(1) hc(6) pc(2), of L] obtain lt where
    lt: "lagged_table p L = Inr lt"
    and cols: "set (columns lt) = set (columns p) \<union> lag_col ` {1..L} \<union> {c_dow, c_month, c_aqi_next}"
    by blast
  define ds where "ds = reset_index (dropna (columns lt) lt)"
  have b: "build_supervised_dataset p L = Inr ds"
    by (simp add: build_supervised_dataset_def lt ds_def)
  have cds: "columns ds = columns lt" by (simp add: ds_def reset_index_def dropna_def)
  have base: "c_max_temp \<in> set (columns lt)" "c_min_temp \<in> set (columns lt)"
    "c_wind_speed \<in> set (columns lt)" "c_dow \<in> set (columns lt)" "c_month \<in> set (columns lt)"
    "c_aqi_next \<in> set (columns lt)"
    using cols hc by auto
  have lag: "lag_col i \<in> set (columns lt)" if "i \<in> set [1..<L + 1]" for i
    using that cols by auto
  have "list_all (has_col ds) (feature_cols L)"
    unfolding feature_cols_def list_all_iff has_col_def cds using base lag by auto
  then have "select_columns ds (feature_cols L)
      = Inr \<lparr>columns = feature_cols L, rows = rows ds\<rparr>"
    by (simp add: select_columns_def)
  moreover have "has_col ds c_aqi_next" using base by (simp add: has_col_def cds)
  ultimately show ?thesis using b by blast
qed

lemma forecast_passes_unfold:
  assumes p: "preprocess_data rt df = Inr p" and cd: "c_date \<in> set (columns p)"
    and b: "build_supervised_dataset p L = Inr ds"
    and X: "select_columns ds (feature_cols L) = Inr X" and nx: "has_col ds c_aqi_next"
  shows "forecast_passes rt fit df h L qs fut =
     (if nunique (getcol p c_date) < L + 30 then Inr (ErrorDict (msg_dates (L + 30)))
      else case train_models fit X (getcol ds c_aqi_next) qs [] of
             Inl e \<Rightarrow> Inl e
           | Inr models_q \<Rightarrow>
               (case loop_start rt p ds L qs fut models_q of
                  Inl e \<Rightarrow> Inl e
                | Inr (env, recent_aqi) \<Rightarrow>
                    (case forecast_loop env 1 h recent_aqi of
                       Inl e \<Rightarrow> Inl e
                     | Inr passes \<Rightarrow> Inr (Payload (length (rows ds), passes)))))"
  unfolding forecast_passes_def Let_def p sum.case b feature_cols_def [symmetric] X
  using cd nx by (simp add: has_col_def)

lemma forecast_aqi_7_days_error:
  "forecast_aqi_7_days rt fit df h L qs fut = Inr (ErrorDict msg)
     \<longleftrightarrow> forecast_passes rt fit df h L qs fut = Inr (ErrorDict msg)"
  by (auto simp: forecast_aqi_7_days_def split: sum.splits result.splits prod.splits)

lemma forecast_aqi_7_days_payload:
  "forecast_passes rt fit df h L qs fut = Inr (Payload (n, passes)) \<Longrightarrow>
     forecast_aqi_7_days rt fit df h L qs fut
       = Inr (Payload \<lparr>forecast = map emitted passes,
            model_info = \<lparr>train_samples = n, info_lags = L, info_quantiles = qs,
                           info_note = note_persistence\<rparr>\<rparr>)"
  by (simp add: forecast_aqi_7_days_def)

lemma forecast_aqi_7_days_raise:
  "forecast_passes rt fit df h L qs fut = Inl e \<Longrightarrow>
     forecast_aqi_7_days rt fit df h L qs fut = Inl e"
  by (simp add: forecast_aqi_7_days_def)

lemma forecast_outcomes:
  assumes cd: "c_date \<in> set (columns df)" and cw: "c_wind \<in> set (columns df)"
    and ce: "c_weather \<in> set (columns df)" and cx: "c_max_temp \<in> set (columns df)"
    and cn: "c_min_temp \<in> set (columns df)" and ca: "c_aqi \<in> set (columns df)"
  shows "\<exists>p ds X.
       preprocess_data rt df = Inr p \<and> build_supervised_dataset p L = Inr ds
     \<and> select_columns ds (feature_cols L) = Inr X
     \<and> (nunique (getcol p c_date) < L + 30 \<longrightarrow>
          forecast_aqi_7_days rt fit df h L qs fut = Inr (ErrorDict (msg_dates (L + 30))))
     \<and> (\<forall>msg. forecast_aqi_7_days rt fit df h L qs fut = Inr (ErrorDict msg) \<longrightarrow>
          nunique (getcol p c_date) < L + 30 \<and> msg = msg_dates (L + 30))
     \<and> (\<not> nunique (getcol p c_date) < L + 30 \<and> rows ds \<noteq> []
          \<and> (\<forall>q \<in> set qs. \<exists>m. fit q X (getcol ds c_aqi_next) = Inr m) \<and> (qs \<noteq> [] \<or> h = 0)
          \<longrightarrow> (\<exists>pl. forecast_aqi_7_days rt fit df h L qs fut = Inr (Payload pl)
                 \<and> length (forecast pl) = h
                 \<and> model_info pl = \<lparr>train_samples = length (rows ds), info_lags = L,
                      info_quantiles = qs, info_note = note_persistence\<rparr>))
     \<and> (\<not> nunique (getcol p c_date) < L + 30 \<and> rows ds \<noteq> [] \<and> qs = [] \<and> 0 < h
          \<longrightarrow> forecast_aqi_7_days rt fit df h L qs fut = Inl IndexError)"
proof -
  obtain p where p: "preprocess_data rt df = Inr p"
    using preprocess_data_rows [OF cw ce cx cn ca] by blast
  note pc = preprocessed_date_column [OF p cd]
  obtain ds X where b: "build_supervised_dataset p L = Inr ds"
    and X: "select_columns ds (feature_cols L) = Inr X" and nx: "has_col ds c_aqi_next"
    using supervised_exists [OF p cd] by blast
  note U = forecast_passes_unfold [OF p pc(1) b X nx]
  let ?F = "forecast_aqi_7_days rt fit df h L qs fut"
  let ?y = "getcol ds c_aqi_next"
  have 1: "?F = Inr (ErrorDict (msg_dates (L + 30)))" if "nunique (getcol p c_date) < L + 30"
    unfolding forecast_aqi_7_days_error U using that by simp
  have 2: "nunique (getcol p c_date) < L + 30 \<and> msg = msg_dates (L + 30)"
    if "?F = Inr (ErrorDict msg)" for msg
  proof -
    from that have e: "forecast_passes rt fit df h L qs fut = Inr (ErrorDict msg)"
      by (simp add: forecast_aqi_7_days_error)
    show ?thesis
    proof (cases "nunique (getcol p c_date) < L + 30")
      case True
      then show ?thesis using e U by simp
    next
      case False
      then have False using e unfolding U
        by (auto split: sum.splits prod.splits)
      then show ?thesis ..
    qed
  qed
  have start: "\<exists>env. loop_start rt p ds L qs fut ms
            = Inr (env, tail L (getcol (sort_values_date p) c_aqi))
       \<and> env_models env = ms \<and> env_quantiles env = qs \<and> env_lags env = L
       \<and> env_lags env \<le> length (tail L (getcol (sort_values_date p) c_aqi))"
    if big: "\<not> nunique (getcol p c_date) < L + 30" and ne: "rows ds \<noteq> []" for ms
  proof -
    have "0 < nunique (getcol p c_date)" using big by simp
    then obtain c where c: "c \<in> set (getcol p c_date)" "c \<noteq> Missing"
      using nunique_pos by blast
    then have "is_date_or_missing c" using pc(2) by (simp add: list_all_iff)
    then obtain d0 where "c = Date d0" using date_cell c(2) by blast
    then have d: "Date d0 \<in> set (getcol p c_date)" using c by simp
    have num: "\<forall>ir \<in> set (rows p). list_all (\<lambda>c. is_num (snd ir c)) numeric4"
      using preprocess_data_numeric [OF p] by blast
    from loop_start_Inr [OF ne d num, of rt L qs fut ms] obtain env where
      e: "loop_start rt p ds L qs fut ms = Inr (env, tail L (getcol (sort_values_date p) c_aqi))"
      "env_models env = ms" "env_quantiles env = qs" "env_lags env = L" by blast
    have "L + 30 \<le> length (getcol p c_date)" using big nunique_le [of "getcol p c_date"] by simp
    then have "L \<le> length (rows p)" by simp
    then have "L \<le> length (tail L (getcol (sort_values_date p) c_aqi))"
      by (simp add: tail_length)
    then show ?thesis using e by simp
  qed
  have 3: "\<exists>pl. ?F = Inr (Payload pl) \<and> length (forecast pl) = h
         \<and> model_info pl = \<lparr>train_samples = length (rows ds), info_lags = L,
              info_quantiles = qs, info_note = note_persistence\<rparr>"
    if big: "\<not> nunique (getcol p c_date) < L + 30" and ne: "rows ds \<noteq> []"
      and fits: "\<forall>q \<in> set qs. \<exists>m. fit q X ?y = Inr m" and q: "qs \<noteq> [] \<or> h = 0"
  proof -
    obtain ms where tm: "train_models fit X ?y qs [] = Inr ms" and keys: "fst ` set ms = set qs"
      using train_models_Inr [of qs fit X ?y "[]"] fits by auto
    let ?recent = "tail L (getcol (sort_values_date p) c_aqi)"
    obtain env where ls: "loop_start rt p ds L qs fut ms = Inr (env, ?recent)"
      and em: "env_models env = ms" and eq: "env_quantiles env = qs" and el: "env_lags env = L"
      and len: "env_lags env \<le> length ?recent"
      using start [OF big ne, of ms] by blast
    have "\<exists>passes. forecast_loop env 1 h ?recent = Inr passes"
    proof (cases "h = 0")
      case True
      then show ?thesis by simp
    next
      case False
      then have "env_quantiles env \<noteq> []" using q eq by simp
      moreover have "set (env_quantiles env) \<subseteq> fst ` set (env_models env)"
        by (simp add: em eq keys)
      ultimately show ?thesis using forecast_loop_total [OF len] by blast
    qed
    then obtain passes where lo: "forecast_loop env 1 h ?recent = Inr passes" by blast
    have lp: "length passes = h" using forecast_loop_props [OF lo] by simp
    have "forecast_passes rt fit df h L qs fut = Inr (Payload (length (rows ds), passes))"
      unfolding U using big lo by (simp add: tm ls)
    from forecast_aqi_7_days_payload [OF this] show ?thesis using lp by simp
  qed
  have 4: "?F = Inl IndexError"
    if big: "\<not> nunique (getcol p c_date) < L + 30" and ne: "rows ds \<noteq> []"
      and q: "qs = []" and h: "0 < h"
  proof -
    let ?recent = "tail L (getcol (sort_values_date p) c_aqi)"
    obtain env where ls: "loop_start rt p ds L qs fut [] = Inr (env, ?recent)"
      and eq: "env_quantiles env = qs"
      and len: "env_lags env \<le> length ?recent"
      using start [OF big ne, of "[]"] by blast
    obtain h' where h': "h = Suc h'" using h by (cases h) simp_all
    have "forecast_step env 1 ?recent = Inl IndexError"
      using forecast_step_no_quantiles [OF _ len] eq q by simp
    then have "forecast_loop env 1 h ?recent = Inl IndexError" by (simp add: h')
    then have "forecast_passes rt fit df h L qs fut = Inl IndexError"
      unfolding U using big ls by (simp add: q)
    then show ?thesis by (rule forecast_aqi_7_days_raise)
  qed
  show ?thesis
    apply (rule exI [of _ p], rule exI [of _ ds], rule exI [of _ X])
    apply (intro conjI p b X)
    using 1 apply blast
    using 2 apply blast
    using 3 apply blast
    using 4 apply blast
    done
qed

lemma nunique_days: "nunique (map (\<lambda>k. Date (int k)) [0..<n]) = n"
proof -
  have "distinct (map (\<lambda>k. Date (int k)) [0..<n])"
    by (simp add: distinct_map inj_on_def)
  moreover have "filter (\<lambda>c. c \<noteq> Missing) (map (\<lambda>k. Date (int k)) [0..<n])
      = map (\<lambda>k. Date (int k)) [0..<n]"
    by (simp add: filter_map comp_def)
  ultimately show ?thesis by (simp add: nunique_def distinct_remdups_id)
qed

lemma daily_processed_dates:
  "getcol (daily_processed n w) c_date = map (\<lambda>k. Date (int k)) [0..<n]"
  by (simp add: getcol_def comp_def)

lemma daily_table_columns:
  "c_date \<in> set (columns (daily_table n w))" "c_wind \<in> set (columns (daily_table n w))"
  "c_weather \<in> set (columns (daily_table n w))" "c_max_temp \<in> set (columns (daily_table n w))"
  "c_min_temp \<in> set (columns (daily_table n w))" "c_aqi \<in> set (columns (daily_table n w))"
  by (simp_all add: daily_table_def)

lemma dates_of_days: "dates_of (map (\<lambda>k. Date (int k)) [0..<n]) = map int [0..<n]"
  by (induction n) (simp_all add: dates_of_def map_filter_def)

lemma daily_supervised_rows:
  assumes "w \<noteq> Missing" "L + 1 < n" "build_supervised_dataset (daily_processed n w) L = Inr ds"
  shows "length (rows ds) = n - L - 1"
proof -
  let ?p = "daily_processed n w"
  have cd: "c_date \<in> set (columns ?p)" and ca: "c_aqi \<in> set (columns ?p)" by simp_all
  have big: "L + 1 < length (rows ?p)" using assms(2) by simp
  from supervised_shape [OF cd ca daily_processed_datetime daily_processed_full [OF assms(1)] big]
  obtain lt ds' where "build_supervised_dataset ?p L = Inr ds'"
    "length (rows ds') = length (rows ?p) - L - 1"
    by (elim exE conjE)
  then show ?thesis using assms(3) by simp
qed




lemma lag_col_not_weather [simp]: "lag_col i \<noteq> c_weather" "c_weather \<noteq> lag_col i"
  by (simp_all add: lag_col_def col_defs ascii_def)

lemma supervised_empty_without_weather:
  assumes cd: "c_date \<in> set (columns p)" and ca: "c_aqi \<in> set (columns p)"
    and dt: "list_all is_date_or_missing (getcol p c_date)"
    and cw: "c_weather \<in> set (columns p)"
    and none: "\<forall>ir \<in> set (rows p). snd ir c_weather = Missing"
    and b: "build_supervised_dataset p L = Inr ds"
  shows "rows ds = []"
proof -
  let ?S = "rows (sort_values_date p)"
  from lagged_table_char [OF cd ca dt, of L] obtain lt where
    lt: "lagged_table p L = Inr lt" and len: "length (rows lt) = length (rows p)"
    and cols: "set (columns lt) = set (columns p) \<union> lag_col ` {1..L} \<union> {c_dow, c_month, c_aqi_next}"
    and ch0: "\<forall>j < length (rows p).
          fst (rows lt ! j) = fst (?S ! j)
          \<and> snd (rows lt ! j) c_aqi_next
              = (if j + 1 < length (rows p) then snd (?S ! (j + 1)) c_aqi else Missing)
          \<and> snd (rows lt ! j) c_month = dt_field month_of (snd (?S ! j) c_date)
          \<and> snd (rows lt ! j) c_dow = dt_field dayofweek (snd (?S ! j) c_date)
          \<and> (\<forall>i. 1 \<le> i \<and> i \<le> L \<longrightarrow>
                snd (rows lt ! j) (lag_col i) = (if j < i then Missing else snd (?S ! (j - i)) c_aqi))
          \<and> (\<forall>c. c \<notin> lag_col ` {1..L} \<union> {c_dow, c_month, c_aqi_next} \<longrightarrow>
                snd (rows lt ! j) c = snd (?S ! j) c)"
    by (elim exE conjE)
  have ch: "snd (rows lt ! j) c = snd (?S ! j) c"
    if "j < length (rows p)" "c \<notin> lag_col ` {1..L} \<union> {c_dow, c_month, c_aqi_next}" for j c
    using ch0 that by simp
  have ow: "c_weather \<notin> lag_col ` {1..L} \<union> {c_dow, c_month, c_aqi_next}" by auto
  have "\<not> present (columns lt) ir" if "ir \<in> set (rows lt)" for ir
  proof -
    from that obtain j where j: "j < length (rows p)" and e: "ir = rows lt ! j"
      using len by (auto simp: in_set_conv_nth)
    have "?S ! j \<in> set ?S" by (rule nth_mem) (simp add: j)
    then have "?S ! j \<in> set (rows p)" by simp
    then have "snd (?S ! j) c_weather = Missing" using none by blast
    then have "snd ir c_weather = Missing" using ch [OF j ow] e by simp
    moreover have "c_weather \<in> set (columns lt)" using cols cw by simp
    ultimately show ?thesis by (auto simp: present_def list_all_iff)
  qed
  then have "filter (present (columns lt)) (rows lt) = []" by (simp add: filter_empty_conv)
  then show ?thesis
    using b by (auto simp: build_supervised_dataset_def lt reset_index_def dropna_def)
qed

text \<open>
  The guard of \<open>forecast_aqi_7_days\<close> counts the dates of the preprocessed table, while
  \<open>dropna()\<close> in \<open>_build_supervised_dataset\<close> also drops a row for a missing cell in a
  column the model never reads. On 37 consecutive days whose \<open>weather\<close> is missing the
  guard passes, no training row is left, and the call raises whatever the fitting routine
  does.
\<close>

lemma forecast_raises_without_weather:
  "\<exists>e. forecast_aqi_7_days rt0 fit (daily_table 37 Missing) 7 7 [1 / 10, 1 / 2, 9 / 10] None
     = Inl e"
proof -
  let ?df = "daily_table 37 Missing"
  let ?p = "daily_processed 37 Missing"
  let ?qs = "[1 / 10, 1 / 2, 9 / 10] :: real list"
  have p: "preprocess_data rt0 ?df = Inr ?p" by (rule daily_preprocessed)
  have cd: "c_date \<in> set (columns ?p)" and ca: "c_aqi \<in> set (columns ?p)"
    and cw: "c_weather \<in> set (columns ?p)" by simp_all
  obtain ds X where b: "build_supervised_dataset ?p 7 = Inr ds"
    and X: "select_columns ds (feature_cols 7) = Inr X" and nx: "has_col ds c_aqi_next"
    using supervised_exists [OF p daily_table_columns(1)] by blast
  have none: "\<forall>ir \<in> set (rows ?p). snd ir c_weather = Missing" by auto
  have e: "rows ds = []"
    using supervised_empty_without_weather [OF cd ca daily_processed_datetime cw none b] .
  have n: "\<not> nunique (getcol ?p c_date) < 7 + 30"
    by (simp add: daily_processed_dates nunique_days)
  have "\<exists>e. forecast_passes rt0 fit ?df 7 7 ?qs None = Inl e"
    unfolding forecast_passes_unfold [OF p cd b X nx] using n
    by (auto simp: loop_start_def e split: sum.splits)
  then show ?thesis using forecast_aqi_7_days_raise by blast
qed

lemma temp_bins_all [simp]: "t \<in> set temp_bins"
  by (cases t) (simp_all add: temp_bins_def)

lemma wind_bins_all [simp]: "w \<in> set wind_bins"
  by (cases w) (simp_all add: wind_bins_def)

lemma temp_bins_distinct [simp]: "distinct temp_bins" "length temp_bins = 5"
  by (simp_all add: temp_bins_def)

lemma wind_bins_distinct [simp]: "distinct wind_bins" "length wind_bins = 4"
  by (simp_all add: wind_bins_def)

lemma temp_label_inj [simp]: "temp_label t = temp_label t' \<longleftrightarrow> t = t'"
  by (cases t; cases t') simp_all

lemma wind_label_inj [simp]: "wind_label w = wind_label w' \<longleftrightarrow> w = w'"
  by (cases w; cases w') simp_all

lemma cell_key_weather:
  assumes "cell_key f r = Some (t, w, s)"
  shows "r c_weather_simple = Str s"
  using assms by (auto simp: cell_key_def split: cell.splits option.splits)

lemma top_weather_length: "length (top_weather pd p) \<le> 6"
  by (simp add: top_weather_def)

lemma df_filtered_subset: "set (df_filtered pd p) \<subseteq> set (rows p)"
  by (auto simp: df_filtered_def)

lemma filtered_weather:
  assumes "ir \<in> set (df_filtered pd p)" and "snd ir c_weather_simple = Str s"
  shows "s \<in> set (top_weather pd p)"
  using assms by (auto simp: df_filtered_def)

lemma str_values_set: "s \<in> set (str_values cs) \<longleftrightarrow> Str s \<in> set cs"
  by (induction cs) (auto simp: str_values_def map_filter_def split: cell.splits)

lemma filtered_weathers:
  "set (str_values (map (\<lambda>ir. snd ir c_weather_simple) (df_filtered pd p))) \<subseteq> set (top_weather pd p)"
  by (auto simp: str_values_set dest: filtered_weather [OF _ sym])

lemma cell_aqi_filtered:
  assumes "s \<in> set (top_weather pd p)"
  shows "cell_aqi f (df_filtered pd p) (t, w, s) = cell_aqi f (rows p) (t, w, s)"
proof -
  have "filter (\<lambda>ir. cell_key f (snd ir) = Some (t, w, s)) (df_filtered pd p)
      = filter (\<lambda>ir. cell_key f (snd ir) = Some (t, w, s)) (rows p)"
    unfolding df_filtered_def filter_filter
    by (rule filter_cong [OF refl]) (use assms in \<open>auto dest: cell_key_weather\<close>)
  then show ?thesis by (simp add: cell_aqi_def)
qed

lemma cell_aqi_member:
  assumes "cell_aqi f rs k \<noteq> []"
  shows "\<exists>ir \<in> set rs. cell_key f (snd ir) = Some k"
proof (rule ccontr)
  assume "\<not> ?thesis"
  then have "filter (\<lambda>ir. cell_key f (snd ir) = Some k) rs = []" by (simp add: filter_empty_conv)
  then show False using assms by (simp add: cell_aqi_def nums_def map_filter_def)
qed

lemma fl_of_nat:
  assumes "n < 2 ^ 53"
  shows "fl (of_nat n) = of_nat n"
proof -
  let ?x = "real n"
  let ?b = "binade ?x"
  have b: "?b \<le> 1074"
  proof (cases "0 < ?b")
    case True
    have "(2::real) ^ (52 + ?b) \<le> \<bar>?x\<bar> * 2 ^ 1074" by (rule binade_lower [OF True])
    also have "\<dots> < 2 ^ 53 * 2 ^ 1074"
    proof -
      have "real n < real (2 ^ 53)" using assms by (simp only: of_nat_less_iff)
      then have "\<bar>?x\<bar> < 2 ^ 53" by simp
      then show ?thesis by (simp only: mult_less_cancel_right_pos zero_less_power zero_less_numeral)
    qed
    also have "\<dots> = (2::real) ^ (53 + 1074)" by (simp only: power_add)
    finally have "(2::real) ^ (52 + ?b) < 2 ^ (53 + 1074)" .
    then have "52 + ?b < 53 + 1074"
      by (simp only: power_strict_increasing_iff [of 2] one_less_numeral_iff semiring_norm)
    then show ?thesis by simp
  next
    case False
    then show ?thesis by simp
  qed
  have p: "(2::real) ^ 1074 = 2 ^ ?b * 2 ^ (1074 - ?b)"
    using b by (simp add: power_add [symmetric])
  have "?x / spacing ?x = ?x * 2 ^ (1074 - ?b)"
    unfolding spacing_def p by simp
  also have "\<dots> = of_int (int n * 2 ^ (1074 - ?b))" by simp
  finally have q: "?x / spacing ?x = of_int (int n * 2 ^ (1074 - ?b))" .
  have "fl ?x = of_int (int n * 2 ^ (1074 - ?b)) * spacing ?x"
    unfolding fl_def q py_round_of_int ..
  also have "\<dots> = ?x * 2 ^ (1074 - ?b) * spacing ?x" by simp
  also have "\<dots> = ?x" unfolding spacing_def p by simp
  finally show ?thesis .
qed

lemma kahan_naturals:
  assumes "set xs \<subseteq> \<nat>" and "s + sum_list xs < 2 ^ 53" and "s \<in> \<nat>"
  shows "foldl kahan_step (s, 0) xs = (s + sum_list xs, 0)"
  using assms
proof (induction xs arbitrary: s)
  case Nil
  then show ?case by simp
next
  case (Cons x xs)
  from Cons.prems(1) have xn: "x \<in> \<nat>" and rest: "set xs \<subseteq> \<nat>" by simp_all
  obtain a where a: "x = of_nat a" using xn by (auto elim: Nats_cases)
  obtain c where c: "s = of_nat c" using Cons.prems(3) by (auto elim: Nats_cases)
  have nn: "0 \<le> sum_list xs" using rest by (induction xs) (auto elim: Nats_cases)
  have "real (c + a) < 2 ^ 53" using Cons.prems(2) nn by (simp add: a c)
  then have "real (c + a) < real (2 ^ 53)" by simp
  then have ca: "c + a < 2 ^ 53" by (simp only: of_nat_less_iff)
  then have al: "a < 2 ^ 53" by simp
  have fa: "fl x = x" unfolding a by (rule fl_of_nat [OF al])
  have "fl (real (c + a)) = real (c + a)" by (rule fl_of_nat [OF ca])
  then have fs: "fl (s + x) = s + x" by (simp add: a c)
  have st: "kahan_step (s, 0) x = (s + x, 0)"
    by (simp add: kahan_step_def Let_def float_sub_def float_add_def fa fs fl_0)
  have sn: "s + x \<in> \<nat>" using xn Cons.prems(3) by (rule Nats_add [rotated])
  have "foldl kahan_step (s + x, 0) xs = (s + x + sum_list xs, 0)"
    by (rule Cons.IH [OF rest _ sn]) (use Cons.prems(2) in \<open>simp add: add.assoc\<close>)
  then show ?case by (simp add: st add.assoc)
qed

lemma group_mean_naturals:
  assumes "set xs \<subseteq> \<nat>" and "sum_list xs < 2 ^ 53"
  shows "group_mean xs = fl (sum_list xs / of_nat (length xs))"
proof -
  have "foldl kahan_step (0, 0) xs = (0 + sum_list xs, 0)"
    by (rule kahan_naturals) (use assms in simp_all)
  then show ?thesis by (simp add: group_mean_def float_div_def)
qed

lemma top_weather_most_frequent:
  assumes "value_counts_ok col idx"
  shows "distinct (take 6 idx) \<and> set (take 6 idx) \<subseteq> set col
     \<and> (\<forall>s \<in> set (take 6 idx). \<forall>s' \<in> set col - set (take 6 idx).
           count_list col s' \<le> count_list col s)
     \<and> (card (set col) \<le> 6 \<longrightarrow> set (take 6 idx) = set col)"
proof -
  from assms have d: "distinct idx" and e: "set idx = set col"
    and o: "\<And>i j. i < j \<Longrightarrow> j < length idx \<Longrightarrow> count_list col (idx ! j) \<le> count_list col (idx ! i)"
    by (simp_all add: value_counts_ok_def)
  have a: "distinct (take 6 idx)" using d by (rule distinct_take)
  have b: "set (take 6 idx) \<subseteq> set col" using e set_take_subset [of 6 idx] by simp
  have c: "count_list col s' \<le> count_list col s"
    if s: "s \<in> set (take 6 idx)" and s': "s' \<in> set col - set (take 6 idx)" for s s'
  proof -
    from s obtain i where i: "i < length (take 6 idx)" and si: "s = take 6 idx ! i"
      by (auto simp: in_set_conv_nth)
    then have i6: "i < 6" and il: "i < length idx" and si': "s = idx ! i" by simp_all
    from s' e have "s' \<in> set idx" by simp
    then obtain j where j: "j < length idx" and sj: "s' = idx ! j"
      by (auto simp: in_set_conv_nth)
    have "\<not> j < 6"
    proof
      assume "j < 6"
      then have "take 6 idx ! j = idx ! j" and "j < length (take 6 idx)" using j by simp_all
      then have "s' \<in> set (take 6 idx)" unfolding sj by (metis nth_mem)
      then show False using s' by simp
    qed
    then have "i < j" using i6 by simp
    from o [OF this j] show ?thesis by (simp add: si' sj)
  qed
  have f: "set (take 6 idx) = set col" if "card (set col) \<le> 6"
  proof -
    have "length idx = card (set idx)" using d by (simp add: distinct_card)
    then have "length idx \<le> 6" using that e by simp
    then show ?thesis using e by simp
  qed
  show ?thesis using a b c f by blast
qed

lemma analyze_empty:
  assumes "preprocess_data rt df = Inr p" and "rows p = []"
  shows "analyze_multi_factor_relationship rt pd df = Inr []"
  using assms by (simp add: analyze_multi_factor_relationship_def)

lemma analyze_cut_raises:
  assumes "preprocess_data rt df = Inr p" and "rows p \<noteq> []"
    and "cut5 pd (nums (getcol p c_max_temp)) = Inl e"
  shows "analyze_multi_factor_relationship rt pd df = Inl e"
  using assms by (simp add: analyze_multi_factor_relationship_def)

lemma analyze_cells:
  assumes p: "preprocess_data rt df = Inr p" and ne: "rows p \<noteq> []"
    and f: "cut5 pd (nums (getcol p c_max_temp)) = Inr f"
  shows "\<exists>out. analyze_multi_factor_relationship rt pd df = Inr out \<and> length out \<le> 5 * 4 * 6
     \<and> distinct (map (\<lambda>r. (hr_temp_bin r, hr_wind_bin r, hr_weather_simple r)) out)
     \<and> (\<forall>r. r \<in> set out \<longleftrightarrow>
          (\<exists>t w s. s \<in> set (top_weather pd p) \<and> cell_aqi f (rows p) (t, w, s) \<noteq> []
             \<and> r = \<lparr>hr_temp_bin = temp_label t, hr_wind_bin = wind_label w,
                     hr_weather_simple = s,
                     hr_aqi = group_mean (cell_aqi f (rows p) (t, w, s))\<rparr>))"
proof -
  define F where "F = df_filtered pd p"
  define ws where "ws = sort (remdups (str_values (map (\<lambda>ir. snd ir c_weather_simple) F)))"
  define G where "G = filter (\<lambda>k. cell_aqi f F k \<noteq> [])
      (List.product temp_bins (List.product wind_bins ws))"
  define mk where "mk = (\<lambda>k :: heat_key. \<lparr>hr_temp_bin = temp_label (fst k),
      hr_wind_bin = wind_label (fst (snd k)), hr_weather_simple = snd (snd k),
      hr_aqi = group_mean (cell_aqi f F k)\<rparr>)"
  let ?out = "map mk G"
  have out: "analyze_multi_factor_relationship rt pd df = Inr ?out"
    using p ne f
    by (simp add: analyze_multi_factor_relationship_def Let_def F_def ws_def G_def mk_def)
  have wsd: "distinct ws" by (simp add: ws_def)
  have wss: "set ws \<subseteq> set (top_weather pd p)"
    using filtered_weathers [of pd p] by (simp add: ws_def F_def)
  have "length ws = card (set ws)" using wsd by (simp add: distinct_card)
  also have "\<dots> \<le> card (set (top_weather pd p))" by (rule card_mono) (use wss in simp_all)
  also have "\<dots> \<le> length (top_weather pd p)" by (rule card_length)
  also have "\<dots> \<le> 6" by (rule top_weather_length)
  finally have wl: "length ws \<le> 6" .
  have "length ?out = length G" by simp
  also have "\<dots> \<le> length (List.product temp_bins (List.product wind_bins ws))"
    unfolding G_def by (rule length_filter_le)
  also have "\<dots> = 5 * (4 * length ws)" by (simp add: length_product)
  also have "\<dots> \<le> 5 * 4 * 6" using wl by simp
  finally have len: "length ?out \<le> 5 * 4 * 6" .
  have dG: "distinct G"
    unfolding G_def by (intro distinct_filter distinct_product) (simp_all add: wsd)
  have inj: "inj_on (\<lambda>k :: heat_key. (temp_label (fst k), wind_label (fst (snd k)), snd (snd k))) (set G)"
    by (auto simp: inj_on_def)
  have dist: "distinct (map (\<lambda>r. (hr_temp_bin r, hr_wind_bin r, hr_weather_simple r)) ?out)"
    by (simp add: comp_def mk_def distinct_map dG inj)
  have mem: "r \<in> set ?out \<longleftrightarrow>
          (\<exists>t w s. s \<in> set (top_weather pd p) \<and> cell_aqi f (rows p) (t, w, s) \<noteq> []
             \<and> r = \<lparr>hr_temp_bin = temp_label t, hr_wind_bin = wind_label w,
                     hr_weather_simple = s,
                     hr_aqi = group_mean (cell_aqi f (rows p) (t, w, s))\<rparr>)" for r
  proof
    assume "r \<in> set ?out"
    then obtain k where k: "k \<in> set G" and r: "r = mk k" by auto
    obtain t w s where kk: "k = (t, w, s)" by (cases k) auto
    have "s \<in> set ws" using k by (simp add: G_def kk)
    then have st: "s \<in> set (top_weather pd p)" using wss by auto
    have c: "cell_aqi f F (t, w, s) = cell_aqi f (rows p) (t, w, s)"
      unfolding F_def by (rule cell_aqi_filtered [OF st])
    have n: "cell_aqi f F (t, w, s) \<noteq> []" using k by (simp add: G_def kk)
    have "r = \<lparr>hr_temp_bin = temp_label t, hr_wind_bin = wind_label w, hr_weather_simple = s,
               hr_aqi = group_mean (cell_aqi f (rows p) (t, w, s))\<rparr>"
      by (simp add: r mk_def kk c)
    then show "\<exists>t w s. s \<in> set (top_weather pd p) \<and> cell_aqi f (rows p) (t, w, s) \<noteq> []
             \<and> r = \<lparr>hr_temp_bin = temp_label t, hr_wind_bin = wind_label w,
                     hr_weather_simple = s,
                     hr_aqi = group_mean (cell_aqi f (rows p) (t, w, s))\<rparr>"
      using st n c by auto
  next
    assume "\<exists>t w s. s \<in> set (top_weather pd p) \<and> cell_aqi f (rows p) (t, w, s) \<noteq> []
             \<and> r = \<lparr>hr_temp_bin = temp_label t, hr_wind_bin = wind_label w,
                     hr_weather_simple = s,
                     hr_aqi = group_mean (cell_aqi f (rows p) (t, w, s))\<rparr>"
    then obtain t w s where st: "s \<in> set (top_weather pd p)"
      and n: "cell_aqi f (rows p) (t, w, s) \<noteq> []"
      and r: "r = \<lparr>hr_temp_bin = temp_label t, hr_wind_bin = wind_label w,
                     hr_weather_simple = s,
                     hr_aqi = group_mean (cell_aqi f (rows p) (t, w, s))\<rparr>"
      by blast
    have c: "cell_aqi f F (t, w, s) = cell_aqi f (rows p) (t, w, s)"
      unfolding F_def by (rule cell_aqi_filtered [OF st])
    then have n': "cell_aqi f F (t, w, s) \<noteq> []" using n by simp
    from cell_aqi_member [OF n'] obtain ir where ir: "ir \<in> set F"
      and key: "cell_key f (snd ir) = Some (t, w, s)" by auto
    have "snd ir c_weather_simple = Str s" using key by (rule cell_key_weather)
    then have "Str s \<in> set (map (\<lambda>ir. snd ir c_weather_simple) F)" using ir by force
    then have "s \<in> set ws" by (simp add: ws_def str_values_set)
    then have "(t, w, s) \<in> set G" using n' by (simp add: G_def)
    moreover have "r = mk (t, w, s)" by (simp add: r mk_def c)
    ultimately show "r \<in> set ?out" by simp
  qed
  show ?thesis
    by (intro exI [of _ ?out] conjI out len dist allI mem)
qed

lemma preprocess_no_rows:
  assumes "preprocess_data rt df = Inr p" and "rows df = []"
  shows "rows p = []"
  using assms unfolding preprocess_data_Inr_iff
  by (simp add: out_rows_def upd_rows_def date_rows_def Let_def)


lemma wind_bin_of_1: "wind_bin_of 1 = Some Breeze"
proof -
  have "fl (- (1 / 10)) \<le> fl 0" by (rule fl_mono) simp
  then show ?thesis by (simp add: wind_bin_of_def fl_0)
qed

lemma weather_simple_cloudy: "weather_simple rt0 (Str [22810, 20113]) = Str [22810, 20113]"
  by (simp add: weather_simple_def strip_def rt0_def)

lemma daily_cell_aqi:
  "cell_aqi (\<lambda>x. Some Medium) (rows (daily_processed 3 (Str [22810, 20113])))
     (Medium, Breeze, [22810, 20113]) = [80, 80, 80]"
  by (simp add: cell_aqi_def cell_key_def wind_bin_of_1 weather_simple_cloudy nums_def
      map_filter_def num_of_def upt_conv_Cons)

lemma pd0_value_counts_ok: "value_counts_ok col (value_counts_index pd0 col)"
proof -
  let ?f = "\<lambda>v. - int (count_list col v)"
  let ?idx = "sort_key ?f (rev (remdups (rev col)))"
  have d: "distinct ?idx" by simp
  have e: "set ?idx = set col" by simp
  have "sorted (map ?f ?idx)" by (rule sorted_sort_key)
  then have o: "?f (?idx ! i) \<le> ?f (?idx ! j)" if "i < j" "j < length ?idx" for i j
    using that sorted_nth_mono [of "map ?f ?idx" i j] by simp
  have "count_list col (?idx ! j) \<le> count_list col (?idx ! i)"
    if "i < j" "j < length ?idx" for i j
    using o [OF that] by simp
  then show ?thesis unfolding value_counts_ok_def using d e by (simp add: pd0_def)
qed

lemma daily_top_weather:
  "top_weather pd0 (daily_processed 3 (Str [22810, 20113])) = [[22810, 20113]]"
  by (simp add: top_weather_def pd0_def getcol_def weather_simple_cloudy str_values_def
      map_filter_def upt_conv_Cons)


end
